theory Spec2Isabelle
  imports Main "HOL-Library.Char_ord" "HOL-Library.List_Lexorder" "HOL-Library.Multiset"
begin

section \<open>Formatting of integers\<close>

text \<open>
  The \<^verbatim>\<open>%d\<close> verb of \<^verbatim>\<open>fmt.Sprintf\<close>: the decimal digits of an integer, with a
  leading minus sign for a negative one.
\<close>

definition digit_char :: "nat \<Rightarrow> char" where
  "digit_char d = ''0123456789'' ! d"

function dec_nat :: "nat \<Rightarrow> string" where
  "dec_nat n = (if n < 10 then [digit_char n] else dec_nat (n div 10) @ [digit_char (n mod 10)])"
  by pat_completeness auto
termination
  by (relation "measure (\<lambda>n. n)") auto

declare dec_nat.simps [simp del]

definition fmt_d :: "int \<Rightarrow> string" where
  "fmt_d i = (if i < 0 then CHR ''-'' # dec_nat (nat (- i)) else dec_nat (nat i))"

section \<open>Configuration, environment and world\<close>

text \<open>
  \<^verbatim>\<open>type Config struct\<close> of \<^verbatim>\<open>main.go\<close>. Go's \<^verbatim>\<open>int\<close> fields are integers; the
  pointer \<^verbatim>\<open>FTPConn\<close> is \<open>None\<close> while it is \<^verbatim>\<open>nil\<close>.
\<close>

datatype server_conn = ServerConn nat

record config =
  Resolution :: string
  FPS :: int
  Duration :: int
  FTPUser :: string
  FTPPassword :: string
  FTPHost :: string
  FTPPort :: int
  OutputDir :: string
  TestVideoPath :: string
  SnapshotOutputDir :: string
  VideoOutputDir :: string
  CsvOutputFile :: string
  Interval :: int
  MaxRetries :: int
  RetryInterval :: int
  FTPConn :: "server_conn option"

text \<open>
  What the program does to the outside is recorded as a trace of events, oldest first,
  next to the contents of the files it writes.
\<close>

datatype event =
    Log string
  | Sleep int
  | Dial string int
  | Login server_conn string string
  | Open string
  | Stor server_conn string string
  | Close string

record world =
  files :: "string \<rightharpoonup> string"
  trace :: "event list"

definition emit :: "event \<Rightarrow> world \<Rightarrow> world" where
  "emit e w = w\<lparr>trace := trace w @ [e]\<rparr>"

text \<open>
  What the outside answers. An error is its message (\<^verbatim>\<open>%v\<close> of the Go error).
  \<^item> \<open>dial i\<close>: the result of the call of \<^verbatim>\<open>ftp.Dial\<close> made in loop iteration \<open>i\<close>;
  \<^item> \<open>login i\<close>: the error, if any, of \<^verbatim>\<open>c.Login\<close> in loop iteration \<open>i\<close>;
  \<^item> \<open>glob_error\<close>: the error of \<^verbatim>\<open>filepath.Glob\<close> (a malformed pattern), if any;
  \<^item> \<open>readdir d\<close>: the names in directory \<open>d\<close>, in the order the system lists them;
  \<^item> \<open>os_stat p\<close>: the error of \<^verbatim>\<open>os.Stat(p)\<close>, or \<^verbatim>\<open>ModTime().String()\<close> of its result;
  \<^item> \<open>os_create p\<close>, \<open>os_open p\<close>, \<open>file_close p\<close>: the error of the call, if any;
  \<^item> \<open>file_write p\<close>: \<open>Some (k, e)\<close> when writing to \<open>p\<close> fails with \<open>e\<close> after \<open>k\<close> bytes;
  \<^item> \<open>stor c t s\<close>: the error, if any, of \<^verbatim>\<open>c.Stor(t, file)\<close> for the open file \<open>s\<close>.
\<close>

record env =
  dial :: "nat \<Rightarrow> string + server_conn"
  login :: "nat \<Rightarrow> string option"
  glob_error :: "string option"
  readdir :: "string \<Rightarrow> string list"
  os_stat :: "string \<Rightarrow> string + string"
  os_create :: "string \<Rightarrow> string option"
  file_write :: "string \<Rightarrow> (nat \<times> string) option"
  os_open :: "string \<Rightarrow> string option"
  file_close :: "string \<Rightarrow> string option"
  stor :: "server_conn \<Rightarrow> string \<Rightarrow> string \<Rightarrow> string option"

text \<open>
  A \<^verbatim>\<open>time.Duration\<close> is a 64-bit signed count of nanoseconds: conversions and products
  wrap around.
\<close>

definition wrap64 :: "int \<Rightarrow> int" where
  "wrap64 x = (x + 2 ^ 63) mod 2 ^ 64 - 2 ^ 63"

definition time_Second :: int where
  "time_Second = 1000000000"

definition time_Millisecond :: int where
  "time_Millisecond = 1000000"

section \<open>Connection establishment\<close>

text \<open>
  \<^verbatim>\<open>establishFTPConnection\<close>, lines 291 to 314. The loop \<^verbatim>\<open>for i := 0; i < config.MaxRetries; i++\<close>
  is the recursion of \<open>connect_loop\<close> on \<open>i\<close>; the result is the returned error (\<open>None\<close> for
  \<^verbatim>\<open>nil\<close>), the configuration as the call leaves it, and the world.
\<close>

definition ftp_addr :: "config \<Rightarrow> string" where
  "ftp_addr config = FTPHost config @ '':'' @ fmt_d (FTPPort config)"

definition dial_failed_msg :: "config \<Rightarrow> int \<Rightarrow> string \<Rightarrow> string" where
  "dial_failed_msg config i err =
     ''Failed to establish FTP connection, attempt '' @ fmt_d (i + 1) @ ''/''
       @ fmt_d (MaxRetries config) @ '': '' @ err"

definition auth_failed_msg :: "config \<Rightarrow> int \<Rightarrow> string \<Rightarrow> string" where
  "auth_failed_msg config i err =
     ''Failed to authenticate, attempt '' @ fmt_d (i + 1) @ ''/''
       @ fmt_d (MaxRetries config) @ '': '' @ err"

definition exhausted_msg :: "config \<Rightarrow> string" where
  "exhausted_msg config =
     ''failed to establish FTP connection after '' @ fmt_d (MaxRetries config) @ '' attempts''"

function connect_loop ::
  "env \<Rightarrow> string \<Rightarrow> int \<Rightarrow> config \<Rightarrow> world \<Rightarrow> string option \<times> config \<times> world" where
  "connect_loop E addr i config w =
     (if i < MaxRetries config then
        (case dial E (nat i) of
           Inl err \<Rightarrow>
             connect_loop E addr (i + 1) config
               (emit (Sleep (wrap64 (RetryInterval config)))
                 (emit (Log (dial_failed_msg config i err))
                   (emit (Dial addr (wrap64 (5 * time_Second))) w)))
         | Inr c \<Rightarrow>
             (case login E (nat i) of
                Some err \<Rightarrow>
                  connect_loop E addr (i + 1) config
                    (emit (Sleep (wrap64 (RetryInterval config)))
                      (emit (Log (auth_failed_msg config i err))
                        (emit (Login c (FTPUser config) (FTPPassword config))
                          (emit (Dial addr (wrap64 (5 * time_Second))) w))))
              | None \<Rightarrow>
                  (None, config\<lparr>FTPConn := Some c\<rparr>,
                   emit (Login c (FTPUser config) (FTPPassword config))
                     (emit (Dial addr (wrap64 (5 * time_Second))) w))))
      else (Some (exhausted_msg config), config, w))"
  by pat_completeness auto
termination
  by (relation "measure (\<lambda>(E, addr, i, config, w). nat (MaxRetries config - i))") auto

declare connect_loop.simps [simp del]

definition establishFTPConnection ::
  "env \<Rightarrow> config \<Rightarrow> world \<Rightarrow> string option \<times> config \<times> world" where
  "establishFTPConnection E config w = connect_loop E (ftp_addr config) 0 config w"

text \<open>One failed iteration of the loop: what it adds to the trace.\<close>

definition failed_attempt :: "env \<Rightarrow> string \<Rightarrow> config \<Rightarrow> int \<Rightarrow> event list" where
  "failed_attempt E addr config i =
     (case dial E (nat i) of
        Inl err \<Rightarrow>
          [Dial addr (wrap64 (5 * time_Second)), Log (dial_failed_msg config i err),
           Sleep (wrap64 (RetryInterval config))]
      | Inr c \<Rightarrow>
          [Dial addr (wrap64 (5 * time_Second)), Login c (FTPUser config) (FTPPassword config),
           Log (auth_failed_msg config i (the (login E (nat i)))),
           Sleep (wrap64 (RetryInterval config))])"

text \<open>Readings of a trace: the connect attempts and the backoff sleeps in it.\<close>

fun is_dial :: "event \<Rightarrow> bool" where
  "is_dial (Dial a t) = True"
| "is_dial e = False"

fun is_sleep :: "event \<Rightarrow> bool" where
  "is_sleep (Sleep d) = True"
| "is_sleep e = False"

definition attempts :: "event list \<Rightarrow> nat" where
  "attempts tr = length (filter is_dial tr)"

definition sleeps :: "event list \<Rightarrow> nat" where
  "sleeps tr = length (filter is_sleep tr)"

text \<open>An attempt fails when the dial fails, or the dial succeeds and the login fails.\<close>

definition attempt_fails :: "env \<Rightarrow> nat \<Rightarrow> bool" where
  "attempt_fails E i =
     (case dial E i of Inl err \<Rightarrow> True | Inr c \<Rightarrow> login E i \<noteq> None)"

definition attempt_succeeds :: "env \<Rightarrow> nat \<Rightarrow> bool" where
  "attempt_succeeds E i =
     (case dial E i of Inl err \<Rightarrow> False | Inr c \<Rightarrow> login E i = None)"

definition dial_fails :: "env \<Rightarrow> nat \<Rightarrow> bool" where
  "dial_fails E i = (case dial E i of Inl err \<Rightarrow> True | Inr c \<Rightarrow> False)"

section \<open>Paths and the snapshot files\<close>

text \<open>
  \<^verbatim>\<open>filepath.Join\<close> of a directory and a file name, for a directory path that is already
  clean (\<^verbatim>\<open>filepath.Clean\<close> leaves it as it is) and a plain name: an empty directory is
  dropped, the rest is joined with the separator.
\<close>

definition Join :: "string \<Rightarrow> string \<Rightarrow> string" where
  "Join dir name = (if dir = [] then name else dir @ ''/'' @ name)"

text \<open>
  \<^verbatim>\<open>filepath.Base\<close> on Unix: \<^verbatim>\<open>"."\<close> for the empty path; trailing separators are removed,
  then everything up to the last separator; a path of separators only is \<^verbatim>\<open>"/"\<close>.
\<close>

definition Base :: "string \<Rightarrow> string" where
  "Base path =
     (if path = [] then ''.''
      else
        (let p = rev (dropWhile (\<lambda>c. c = CHR ''/'') (rev path));
             e = rev (takeWhile (\<lambda>c. c \<noteq> CHR ''/'') (rev p))
         in if e = [] then ''/'' else e))"

text \<open>
  \<^verbatim>\<open>filepath.Match("snapshot*.jpg", name)\<close>: the star stands for any run of characters
  other than the separator.
\<close>

definition match_snapshot :: "string \<Rightarrow> bool" where
  "match_snapshot name =
     (12 \<le> length name \<and> take 8 name = ''snapshot''
      \<and> drop (length name - 4) name = ''.jpg'' \<and> CHR ''/'' \<notin> set name)"

text \<open>
  \<^verbatim>\<open>filepath.Glob(filepath.Join(dir, "snapshot*.jpg"))\<close>, for a directory path without
  pattern characters: a malformed pattern is the only error; otherwise the names of the
  directory are read, sorted as byte strings, and each name that matches is joined to the
  directory.
\<close>

definition glob_snapshots :: "env \<Rightarrow> string \<Rightarrow> string + string list" where
  "glob_snapshots E dir =
     (case glob_error E of
        Some err \<Rightarrow> Inl err
      | None \<Rightarrow> Inr (map (Join dir) (filter match_snapshot (sort (readdir E dir)))))"



section \<open>The manifest\<close>

text \<open>
  \<^verbatim>\<open>csv.NewWriter(file).WriteAll(records)\<close> of Go's \<^verbatim>\<open>encoding/csv\<close>, with the
  writer's defaults (comma as the delimiter, a line feed after each record). A field is
  quoted when it is \<^verbatim>\<open>\.\<close>, contains the delimiter, a quote, a carriage return or a
  line feed, or begins with a space (\<^verbatim>\<open>unicode.IsSpace\<close> of its first UTF-8 rune); the
  empty field is never quoted. Inside quotes a quote is doubled.
\<close>

definition starts_with :: "string \<Rightarrow> string \<Rightarrow> bool" where
  "starts_with p s = (take (length p) s = p)"

definition first_rune_is_space :: "string \<Rightarrow> bool" where
  "first_rune_is_space s =
     (case s of
        [] \<Rightarrow> False
      | c # cs \<Rightarrow>
          ((9::nat) \<le> of_char c \<and> of_char c \<le> (13::nat)) \<or> c = CHR '' ''
          \<or> starts_with [CHR 0xC2, CHR 0x85] s \<or> starts_with [CHR 0xC2, CHR 0xA0] s
          \<or> starts_with [CHR 0xE1, CHR 0x9A, CHR 0x80] s
          \<or> (starts_with [CHR 0xE2, CHR 0x80] s \<and> 3 \<le> length s
              \<and> (((128::nat) \<le> of_char (s ! 2) \<and> of_char (s ! 2) \<le> (138::nat))
                  \<or> s ! 2 = CHR 0xA8 \<or> s ! 2 = CHR 0xA9 \<or> s ! 2 = CHR 0xAF))
          \<or> starts_with [CHR 0xE2, CHR 0x81, CHR 0x9F] s
          \<or> starts_with [CHR 0xE3, CHR 0x80, CHR 0x80] s)"

definition special_char :: "char \<Rightarrow> bool" where
  "special_char c = (c = CHR 0x0A \<or> c = CHR 0x0D \<or> c = CHR 0x22 \<or> c = CHR '','')"

definition fieldNeedsQuotes :: "string \<Rightarrow> bool" where
  "fieldNeedsQuotes field =
     (if field = [] then False
      else if field = [CHR 0x5C, CHR ''.''] then True
      else if \<exists>c \<in> set field. special_char c then True
      else first_rune_is_space field)"

definition quoted_body :: "string \<Rightarrow> string" where
  "quoted_body field = concat (map (\<lambda>c. if c = CHR 0x22 then [CHR 0x22, CHR 0x22] else [c]) field)"

definition write_field :: "string \<Rightarrow> string" where
  "write_field field =
     (if fieldNeedsQuotes field then CHR 0x22 # quoted_body field @ [CHR 0x22] else field)"

fun write_fields :: "string list \<Rightarrow> string" where
  "write_fields [] = []"
| "write_fields [f] = write_field f"
| "write_fields (f # g # fs) = write_field f @ '','' @ write_fields (g # fs)"

definition csv_Write :: "string list \<Rightarrow> string" where
  "csv_Write record = write_fields record @ [CHR 0x0A]"

definition csv_WriteAll :: "string list list \<Rightarrow> string" where
  "csv_WriteAll records = concat (map csv_Write records)"

text \<open>
  \<^verbatim>\<open>generateMetadata\<close>, lines 213 to 263. \<open>collect_records\<close> is the loop of lines 231 to
  238 over the files that Glob returned, \<open>records\<close> being the slice built so far.
\<close>

definition csv_header :: "string list" where
  "csv_header = [''Filename'', ''Creation Time'']"

definition stat_failed_msg :: "string \<Rightarrow> string \<Rightarrow> string" where
  "stat_failed_msg file err =
     ''Failed to retrieve file info for '' @ [CHR 0x27] @ file @ [CHR 0x27] @ '': '' @ err"

fun collect_records ::
  "env \<Rightarrow> string list \<Rightarrow> string list list \<Rightarrow> world \<Rightarrow> string list list \<times> world" where
  "collect_records E [] records w = (records, w)"
| "collect_records E (file # rest) records w =
     (case os_stat E file of
        Inl err \<Rightarrow>
          collect_records E rest records (emit (Log (stat_failed_msg file err)) w)
      | Inr mtime \<Rightarrow> collect_records E rest (records @ [[Base file, mtime]]) w)"

definition generateMetadata :: "env \<Rightarrow> config \<Rightarrow> world \<Rightarrow> world" where
  "generateMetadata E config w0 =
     (let w = emit (Log ''Generating metadata...'') w0 in
      case glob_snapshots E (SnapshotOutputDir config) of
        Inl err \<Rightarrow> emit (Log (''Failed to retrieve snapshot files: '' @ err)) w
      | Inr snapshotFiles \<Rightarrow>
          if length snapshotFiles = 0 then emit (Log ''Warning: No snapshot files found.'') w
          else
            (case collect_records E snapshotFiles [csv_header] w of
               (records, w1) \<Rightarrow>
                 (case os_create E (CsvOutputFile config) of
                    Some err \<Rightarrow> emit (Log (''Failed to create metadata file: '' @ err)) w1
                  | None \<Rightarrow>
                      (let w2 =
                         (case file_write E (CsvOutputFile config) of
                            Some (k, err) \<Rightarrow>
                              emit (Log (''Failed to write to metadata file: '' @ err))
                                (w1\<lparr>files := (files w1)
                                   (CsvOutputFile config \<mapsto> take k (csv_WriteAll records))\<rparr>)
                          | None \<Rightarrow>
                              emit (Log ''Metadata generation completed.'')
                                (w1\<lparr>files := (files w1)
                                   (CsvOutputFile config \<mapsto> csv_WriteAll records)\<rparr>))
                       in case file_close E (CsvOutputFile config) of
                            Some err \<Rightarrow> emit (Log (''Failed to close metadata file: '' @ err)) w2
                          | None \<Rightarrow> w2))))"

text \<open>Readings of a manifest's records: the rows as (filename, timestamp) pairs.\<close>

definition record_of_pair :: "string \<times> string \<Rightarrow> string list" where
  "record_of_pair p = [fst p, snd p]"

definition stat_ok :: "env \<Rightarrow> string \<Rightarrow> bool" where
  "stat_ok E file = (case os_stat E file of Inl err \<Rightarrow> False | Inr mtime \<Rightarrow> True)"

definition mtime_of :: "env \<Rightarrow> string \<Rightarrow> string" where
  "mtime_of E file = (case os_stat E file of Inl err \<Rightarrow> [] | Inr mtime \<Rightarrow> mtime)"

definition stat_error :: "env \<Rightarrow> string \<Rightarrow> string" where
  "stat_error E file = (case os_stat E file of Inl err \<Rightarrow> err | Inr mtime \<Rightarrow> [])"

definition manifest_pairs :: "env \<Rightarrow> string list \<Rightarrow> (string \<times> string) list" where
  "manifest_pairs E snapshotFiles =
     map (\<lambda>file. (Base file, mtime_of E file)) (filter (stat_ok E) snapshotFiles)"

text \<open>
  Modelled from the spec: the reader of a manifest, which the round-trip property of the
  specification needs. The program has no reader of its own; \<open>csv_parse\<close> reads
  delimited tabular text the standard way (RFC 4180): fields are separated by commas and
  records end at a line feed, which a carriage return may precede; a field that begins
  with a quote runs to the next single quote, a doubled quote inside it standing for one
  quote; a quote inside an unquoted field, text after a closing quote and a quoted field
  that never closes are malformed (\<open>None\<close>).
\<close>

datatype parse_state = RecordStart | FieldStart | InPlain | InQuoted | AfterQuote

fun csv_parse_from ::
  "parse_state \<Rightarrow> string \<Rightarrow> string list \<Rightarrow> string list list \<Rightarrow> string
     \<Rightarrow> string list list option" where
  "csv_parse_from st fld row rows [] =
     (if st = RecordStart then Some rows
      else if st = InQuoted then None
      else Some (rows @ [row @ [fld]]))"
| "csv_parse_from st fld row rows (c # cs) =
     (if st = InQuoted then
        (if c = CHR 0x22 then csv_parse_from AfterQuote fld row rows cs
         else csv_parse_from InQuoted (fld @ [c]) row rows cs)
      else if st = AfterQuote \<and> c = CHR 0x22 then
        csv_parse_from InQuoted (fld @ [CHR 0x22]) row rows cs
      else if c = CHR '','' then csv_parse_from FieldStart [] (row @ [fld]) rows cs
      else if c = CHR 0x0A then csv_parse_from RecordStart [] [] (rows @ [row @ [fld]]) cs
      else if c = CHR 0x0D \<and> cs \<noteq> [] \<and> hd cs = CHR 0x0A then
        csv_parse_from st fld row rows cs
      else if st = AfterQuote then None
      else if c = CHR 0x22 then
        (if st = InPlain then None else csv_parse_from InQuoted [] row rows cs)
      else csv_parse_from InPlain (fld @ [c]) row rows cs)"

definition csv_parse :: "string \<Rightarrow> string list list option" where
  "csv_parse s = csv_parse_from RecordStart [] [] [] s"

section \<open>Uploads\<close>

text \<open>
  A call either returns or panics. \<^verbatim>\<open>uploadFile\<close>, lines 265 to 288: the deferred
  closure closes the file on every way out once the file is open, and puts the error of
  the close into the named result \<^verbatim>\<open>err\<close> when that is still \<^verbatim>\<open>nil\<close>. Calling
  \<^verbatim>\<open>Stor\<close> on a \<^verbatim>\<open>nil\<close> connection is a nil pointer dereference: the call panics, after
  the deferred close.
\<close>

datatype 'a outcome = Returns 'a | Panics

definition uploadFile ::
  "env \<Rightarrow> config \<Rightarrow> string \<Rightarrow> string \<Rightarrow> world \<Rightarrow> string option outcome \<times> world" where
  "uploadFile E config sourceFile targetFile w =
     (let w1 = emit (Open sourceFile) w in
      case os_open E sourceFile of
        Some err \<Rightarrow> (Returns (Some err), w1)
      | None \<Rightarrow>
          (case FTPConn config of
             None \<Rightarrow> (Panics, emit (Close sourceFile) w1)
           | Some c \<Rightarrow>
               (let err = stor E c targetFile sourceFile;
                    w2 = emit (Close sourceFile) (emit (Stor c targetFile sourceFile) w1)
                in case file_close E sourceFile of
                     None \<Rightarrow> (Returns err, w2)
                   | Some closeErr \<Rightarrow>
                       if err = None then (Returns (Some closeErr), w2)
                       else (Returns err,
                             emit (Log (''Failed to close the file: '' @ closeErr)) w2))))"

text \<open>
  \<^verbatim>\<open>uploadSnapshots\<close>, lines 316 to 336; \<open>upload_each\<close> is its loop over the files of
  the Glob.
\<close>

definition uploaded_msg :: "string \<Rightarrow> string" where
  "uploaded_msg file = ''Uploaded snapshot file '' @ [CHR 0x27] @ file @ [CHR 0x27]"

definition upload_failed_prefix :: "string \<Rightarrow> string" where
  "upload_failed_prefix file =
     ''Failed to upload snapshot file '' @ [CHR 0x27] @ file @ [CHR 0x27] @ '': ''"

fun upload_each :: "env \<Rightarrow> config \<Rightarrow> string list \<Rightarrow> world \<Rightarrow> unit outcome \<times> world" where
  "upload_each E config [] w = (Returns (), w)"
| "upload_each E config (file # rest) w =
     (case uploadFile E config file (Join (OutputDir config) (Base file)) w of
        (Panics, w1) \<Rightarrow> (Panics, w1)
      | (Returns err, w1) \<Rightarrow>
          upload_each E config rest
            (emit (Sleep (wrap64 (time_Millisecond * wrap64 (Interval config))))
              (emit (Log (case err of
                            Some e \<Rightarrow> upload_failed_prefix file @ e
                          | None \<Rightarrow> uploaded_msg file)) w1)))"

definition uploadSnapshots :: "env \<Rightarrow> config \<Rightarrow> world \<Rightarrow> unit outcome \<times> world" where
  "uploadSnapshots E config w0 =
     (let w = emit (Log ''Uploading snapshots to FTPS...'') w0 in
      case glob_snapshots E (SnapshotOutputDir config) of
        Inl err \<Rightarrow> (Returns (), emit (Log (''Failed to retrieve snapshot files: '' @ err)) w)
      | Inr snapshotFiles \<Rightarrow>
          (case upload_each E config snapshotFiles w of
             (Panics, w1) \<Rightarrow> (Panics, w1)
           | (Returns u, w1) \<Rightarrow> (Returns (), emit (Log ''Snapshot upload completed.'') w1)))"

text \<open>\<^verbatim>\<open>uploadMetadata\<close>, lines 339 to 347.\<close>

definition uploadMetadata :: "env \<Rightarrow> config \<Rightarrow> world \<Rightarrow> unit outcome \<times> world" where
  "uploadMetadata E config w0 =
     (let w = emit (Log ''Uploading metadata to FTPS...'') w0 in
      case uploadFile E config (CsvOutputFile config) (Join (OutputDir config) ''metadata.csv'') w of
        (Panics, w1) \<Rightarrow> (Panics, w1)
      | (Returns (Some err), w1) \<Rightarrow>
          (Returns (), emit (Log (''Failed to upload metadata: '' @ err)) w1)
      | (Returns None, w1) \<Rightarrow> (Returns (), emit (Log ''Metadata upload completed.'') w1))"

text \<open>
  Readings of a trace: what a call added to it, the files it opened for upload, and the
  outcome lines it logged for snapshot files.
\<close>

definition since :: "world \<Rightarrow> world \<Rightarrow> event list" where
  "since w w' = drop (length (trace w)) (trace w')"

fun opened :: "event list \<Rightarrow> string list" where
  "opened [] = []"
| "opened (Open s # tr) = s # opened tr"
| "opened (e # tr) = opened tr"

definition is_outcome_msg :: "string \<Rightarrow> bool" where
  "is_outcome_msg m =
     (starts_with ''Uploaded snapshot file '' m \<or> starts_with ''Failed to upload snapshot file '' m)"

fun outcome_logs :: "event list \<Rightarrow> string list" where
  "outcome_logs [] = []"
| "outcome_logs (Log m # tr) = (if is_outcome_msg m then m # outcome_logs tr else outcome_logs tr)"
| "outcome_logs (e # tr) = outcome_logs tr"

definition outcome_of_file :: "string \<Rightarrow> string \<Rightarrow> bool" where
  "outcome_of_file file m = (m = uploaded_msg file \<or> starts_with (upload_failed_prefix file) m)"

fun logged :: "event list \<Rightarrow> string list" where
  "logged [] = []"
| "logged (Log m # tr) = m # logged tr"
| "logged (e # tr) = logged tr"

section \<open>The coordinator\<close>

text \<open>
  The goroutines of \<^verbatim>\<open>main\<close>, lines 72 to 118, as instruction lists: the three that
  run \<^verbatim>\<open>generateTestVideo\<close>, \<^verbatim>\<open>generateSnapshots\<close> and \<^verbatim>\<open>generateMetadata\<close> (the
  stages \<open>TestVideo\<close>, \<open>Snapshots\<close> and \<open>Metadata\<close>), the two uploads, each followed by
  its deferred \<^verbatim>\<open>wg.Done()\<close>, and \<^verbatim>\<open>main\<close> itself from \<^verbatim>\<open>wg.Wait()\<close> on, after
  \<^verbatim>\<open>wg.Add(2)\<close>. A goroutine is the rest of its body together with a flag that says
  whether it is inside the call at the head. The scheduler may run any goroutine that can
  move. The channels are unbuffered: a send and a receive on the same channel happen
  together, as one step of two goroutines. Every step needs the process to be alive; it
  ends when \<^verbatim>\<open>main\<close> returns, wherever the other goroutines are.
\<close>

datatype stage = TestVideo | Snapshots | Metadata | UploadSnapshots | UploadMetadata

datatype channel = testVideoDone | snapshotsDone

datatype instr = Call stage | Send channel | Recv channel | WgDone | WgWait | FinalSleep | Exit

datatype obs = Started stage | Finished stage | Handoff channel

record sched =
  goroutines :: "(bool \<times> instr list) list"
  wg :: nat
  exited :: bool
  history :: "obs list"

definition main_init :: sched where
  "main_init =
     \<lparr>goroutines =
        [(False, [Call TestVideo, Send testVideoDone]),
         (False, [Recv testVideoDone, Call Snapshots, Send snapshotsDone]),
         (False, [Recv snapshotsDone, Call Metadata]),
         (False, [Call UploadSnapshots, WgDone]),
         (False, [Call UploadMetadata, WgDone]),
         (False, [WgWait, FinalSleep, Exit])],
      wg = 2, exited = False, history = []\<rparr>"

inductive step :: "sched \<Rightarrow> sched \<Rightarrow> bool" where
  call_start:
    "\<not> exited s \<Longrightarrow> i < length (goroutines s) \<Longrightarrow> goroutines s ! i = (False, Call f # rest)
     \<Longrightarrow> step s (s\<lparr>goroutines := (goroutines s)[i := (True, Call f # rest)],
                   history := history s @ [Started f]\<rparr>)"
| call_return:
    "\<not> exited s \<Longrightarrow> i < length (goroutines s) \<Longrightarrow> goroutines s ! i = (True, Call f # rest)
     \<Longrightarrow> step s (s\<lparr>goroutines := (goroutines s)[i := (False, rest)],
                   history := history s @ [Finished f]\<rparr>)"
| handoff:
    "\<not> exited s \<Longrightarrow> i < length (goroutines s) \<Longrightarrow> j < length (goroutines s) \<Longrightarrow> i \<noteq> j
     \<Longrightarrow> goroutines s ! i = (False, Send c # ri) \<Longrightarrow> goroutines s ! j = (False, Recv c # rj)
     \<Longrightarrow> step s (s\<lparr>goroutines := (goroutines s)[i := (False, ri), j := (False, rj)],
                   history := history s @ [Handoff c]\<rparr>)"
| wg_done:
    "\<not> exited s \<Longrightarrow> i < length (goroutines s) \<Longrightarrow> goroutines s ! i = (False, WgDone # rest)
     \<Longrightarrow> step s (s\<lparr>goroutines := (goroutines s)[i := (False, rest)], wg := wg s - 1\<rparr>)"
| wg_wait:
    "\<not> exited s \<Longrightarrow> i < length (goroutines s) \<Longrightarrow> goroutines s ! i = (False, WgWait # rest)
     \<Longrightarrow> wg s = 0
     \<Longrightarrow> step s (s\<lparr>goroutines := (goroutines s)[i := (False, rest)]\<rparr>)"
| final_sleep:
    "\<not> exited s \<Longrightarrow> i < length (goroutines s) \<Longrightarrow> goroutines s ! i = (False, FinalSleep # rest)
     \<Longrightarrow> step s (s\<lparr>goroutines := (goroutines s)[i := (False, rest)]\<rparr>)"
| main_returns:
    "\<not> exited s \<Longrightarrow> i < length (goroutines s) \<Longrightarrow> goroutines s ! i = (False, Exit # rest)
     \<Longrightarrow> step s (s\<lparr>goroutines := (goroutines s)[i := (False, rest)], exited := True\<rparr>)"

inductive reachable :: "sched \<Rightarrow> bool" where
  reachable_init: "reachable main_init"
| reachable_step: "reachable s \<Longrightarrow> step s s' \<Longrightarrow> reachable s'"

text \<open>
  \<open>precedes a b h\<close>: if \<open>b\<close> is in the history \<open>h\<close>, then \<open>a\<close> is there before the first
  \<open>b\<close>. \<open>occurrences a h\<close> counts \<open>a\<close> in \<open>h\<close>.
\<close>

definition precedes :: "obs \<Rightarrow> obs \<Rightarrow> obs list \<Rightarrow> bool" where
  "precedes a b h = (b \<in> set h \<longrightarrow> a \<in> set (takeWhile (\<lambda>e. e \<noteq> b) h))"

definition occurrences :: "obs \<Rightarrow> obs list \<Rightarrow> nat" where
  "occurrences a h = length (filter (\<lambda>e. e = a) h)"

text \<open>
  What a goroutine can still have to do: \<open>allowed k\<close> holds the states of goroutine \<open>k\<close>,
  from its whole body down to nothing. \<open>shape\<close> says that every goroutine is in one
  of its states.
\<close>

definition allowed :: "nat \<Rightarrow> (bool \<times> instr list) set" where
  "allowed k =
     (if k = 0 then
        {(False, [Call TestVideo, Send testVideoDone]), (True, [Call TestVideo, Send testVideoDone]),
         (False, [Send testVideoDone]), (False, [])}
      else if k = 1 then
        {(False, [Recv testVideoDone, Call Snapshots, Send snapshotsDone]),
         (False, [Call Snapshots, Send snapshotsDone]), (True, [Call Snapshots, Send snapshotsDone]),
         (False, [Send snapshotsDone]), (False, [])}
      else if k = 2 then
        {(False, [Recv snapshotsDone, Call Metadata]), (False, [Call Metadata]),
         (True, [Call Metadata]), (False, [])}
      else if k = 3 then
        {(False, [Call UploadSnapshots, WgDone]), (True, [Call UploadSnapshots, WgDone]),
         (False, [WgDone]), (False, [])}
      else if k = 4 then
        {(False, [Call UploadMetadata, WgDone]), (True, [Call UploadMetadata, WgDone]),
         (False, [WgDone]), (False, [])}
      else if k = 5 then
        {(False, [WgWait, FinalSleep, Exit]), (False, [FinalSleep, Exit]), (False, [Exit]),
         (False, [])}
      else {})"

definition shape :: "sched \<Rightarrow> bool" where
  "shape s = (length (goroutines s) = 6 \<and> (\<forall>k < 6. goroutines s ! k \<in> allowed k))"

text \<open>
  The invariant of the run. A goroutine that waits on a channel has moved on only if
  the sender has sent and is done; a goroutine past its call has the end of the call in
  the history; a handoff is in the history exactly when its sender is done.
\<close>

definition stage_inv :: "sched \<Rightarrow> bool" where
  "stage_inv s =
     (let g0 = goroutines s ! 0; g1 = goroutines s ! 1; g2 = goroutines s ! 2; h = history s in
      (g0 = (False, [Send testVideoDone]) \<or> g0 = (False, []) \<longrightarrow> Finished TestVideo \<in> set h)
      \<and> (g1 \<noteq> (False, [Recv testVideoDone, Call Snapshots, Send snapshotsDone]) \<longrightarrow> g0 = (False, []))
      \<and> (g1 = (False, [Send snapshotsDone]) \<or> g1 = (False, []) \<longrightarrow> Finished Snapshots \<in> set h)
      \<and> (g2 \<noteq> (False, [Recv snapshotsDone, Call Metadata]) \<longrightarrow> g1 = (False, []))
      \<and> occurrences (Handoff testVideoDone) h = (if g0 = (False, []) then 1 else 0)
      \<and> occurrences (Handoff snapshotsDone) h = (if g1 = (False, []) then 1 else 0)
      \<and> precedes (Finished TestVideo) (Started Snapshots) h
      \<and> precedes (Handoff testVideoDone) (Started Snapshots) h
      \<and> precedes (Finished Snapshots) (Started Metadata) h
      \<and> precedes (Handoff snapshotsDone) (Started Metadata) h)"

text \<open>A state of the run, given by its goroutines and its history, before any upload is done.\<close>

definition run_state :: "(bool \<times> instr list) list \<Rightarrow> obs list \<Rightarrow> sched" where
  "run_state gs h = \<lparr>goroutines = gs, wg = 2, exited = False, history = h\<rparr>"

section \<open>Sample inputs\<close>

text \<open>
  A configuration, an environment in which every dial is refused and every file
  operation succeeds, and the world before the program has done anything. The examples
  below vary them.
\<close>

definition sample_config :: config where
  "sample_config =
     \<lparr>Resolution = ''640x480'', FPS = 30, Duration = 2, FTPUser = ''tester'',
      FTPPassword = ''secret'', FTPHost = ''127.0.0.1'', FTPPort = 21, OutputDir = ''/uploads'',
      TestVideoPath = ''out/test.mp4'', SnapshotOutputDir = ''out/snapshots'',
      VideoOutputDir = ''out'', CsvOutputFile = ''out/metadata.csv'', Interval = 1,
      MaxRetries = 3, RetryInterval = 2000000000, FTPConn = None\<rparr>"

definition sample_env :: env where
  "sample_env =
     \<lparr>dial = (\<lambda>i. Inl ''connection refused''), login = (\<lambda>i. None), glob_error = None,
      readdir = (\<lambda>d. []), os_stat = (\<lambda>p. Inl ''no such file''), os_create = (\<lambda>p. None),
      file_write = (\<lambda>p. None), os_open = (\<lambda>p. None), file_close = (\<lambda>p. None),
      stor = (\<lambda>c t s. None)\<rparr>"

definition empty_world :: world where
  "empty_world = \<lparr>files = Map.empty, trace = []\<rparr>"

section \<open>Connection establishment: the retry loop\<close>

lemma emit_trace: "emit e w = w\<lparr>trace := trace w @ [e]\<rparr>"
  by (simp add: emit_def)

lemma since_ext [simp]: "since w (w\<lparr>trace := trace w @ ev\<rparr>) = ev"
  by (simp add: since_def)

lemma attempts_simps [simp]:
  "attempts [] = 0"
  "attempts (e # tr) = (if is_dial e then 1 else 0) + attempts tr"
  "attempts (tr @ tr') = attempts tr + attempts tr'"
  by (simp_all add: attempts_def)

lemma sleeps_simps [simp]:
  "sleeps [] = 0"
  "sleeps (e # tr) = (if is_sleep e then 1 else 0) + sleeps tr"
  "sleeps (tr @ tr') = sleeps tr + sleeps tr'"
  by (simp_all add: sleeps_def)

lemma failed_attempt_counts:
  "attempts (failed_attempt E addr config i) = 1"
  "sleeps (failed_attempt E addr config i) = 1"
  "failed_attempt E addr config i \<noteq> []"
  "last (failed_attempt E addr config i) = Sleep (wrap64 (RetryInterval config))"
  by (simp_all add: failed_attempt_def split: sum.splits)

lemma connect_loop_retry:
  assumes "i < MaxRetries config" and "attempt_fails E (nat i)"
  shows "connect_loop E addr i config w =
           connect_loop E addr (i + 1) config (w\<lparr>trace := trace w @ failed_attempt E addr config i\<rparr>)"
  using assms
  by (subst connect_loop.simps)
     (auto simp: attempt_fails_def failed_attempt_def emit_trace split: sum.splits)



lemma connect_loop_exhausts:
  "(\<And>k. i \<le> k \<Longrightarrow> k < MaxRetries config \<Longrightarrow> attempt_fails E (nat k)) \<Longrightarrow>
   \<exists>ev. connect_loop E addr i config w
           = (Some (exhausted_msg config), config, w\<lparr>trace := trace w @ ev\<rparr>)
      \<and> attempts ev = nat (MaxRetries config - i) \<and> sleeps ev = nat (MaxRetries config - i)
      \<and> (if i < MaxRetries config then ev \<noteq> [] \<and> last ev = Sleep (wrap64 (RetryInterval config))
         else ev = [])"
proof (induction "nat (MaxRetries config - i)" arbitrary: i w)
  case 0
  then have "\<not> i < MaxRetries config" by simp
  then have "connect_loop E addr i config w
               = (Some (exhausted_msg config), config, w\<lparr>trace := trace w @ []\<rparr>)"
    by (subst connect_loop.simps) simp
  with 0 show ?case by (intro exI[of _ "[]"]) simp
next
  case (Suc n)
  then have lt: "i < MaxRetries config" by simp
  let ?a = "failed_attempt E addr config i"
  let ?w1 = "w\<lparr>trace := trace w @ ?a\<rparr>"
  have n: "n = nat (MaxRetries config - (i + 1))" using Suc.hyps(2) by simp
  have rest: "\<And>k. i + 1 \<le> k \<Longrightarrow> k < MaxRetries config \<Longrightarrow> attempt_fails E (nat k)"
    using Suc.prems by simp
  have "\<exists>ev. connect_loop E addr (i + 1) config ?w1
           = (Some (exhausted_msg config), config, ?w1\<lparr>trace := trace ?w1 @ ev\<rparr>)
      \<and> attempts ev = nat (MaxRetries config - (i + 1)) \<and> sleeps ev = nat (MaxRetries config - (i + 1))
      \<and> (if i + 1 < MaxRetries config
          then ev \<noteq> [] \<and> last ev = Sleep (wrap64 (RetryInterval config)) else ev = [])"
    using n rest by (rule Suc.hyps(1))
  then obtain ev where
    ev: "connect_loop E addr (i + 1) config ?w1
           = (Some (exhausted_msg config), config, ?w1\<lparr>trace := trace ?w1 @ ev\<rparr>)"
    and cnt: "attempts ev = nat (MaxRetries config - (i + 1))"
      "sleeps ev = nat (MaxRetries config - (i + 1))"
    and lst: "if i + 1 < MaxRetries config
          then ev \<noteq> [] \<and> last ev = Sleep (wrap64 (RetryInterval config)) else ev = []"
    by (elim exE conjE)
  have "attempt_fails E (nat i)" using Suc.prems lt by simp
  then have "connect_loop E addr i config w = connect_loop E addr (i + 1) config ?w1"
    using lt by (simp add: connect_loop_retry)
  then have r: "connect_loop E addr i config w
               = (Some (exhausted_msg config), config, w\<lparr>trace := trace w @ (?a @ ev)\<rparr>)"
    by (simp add: ev)
  have c1: "attempts (?a @ ev) = nat (MaxRetries config - i)"
    using cnt(1) lt by (simp add: failed_attempt_counts)
  have c2: "sleeps (?a @ ev) = nat (MaxRetries config - i)"
    using cnt(2) lt by (simp add: failed_attempt_counts)
  have l1: "?a @ ev \<noteq> []" by (simp add: failed_attempt_counts)
  have l2: "last (?a @ ev) = Sleep (wrap64 (RetryInterval config))"
  proof (cases "ev = []")
    case True
    then show ?thesis by (simp add: failed_attempt_counts)
  next
    case False
    then show ?thesis using lst by (simp split: if_splits)
  qed
  show ?case
    by (rule exI[of _ "?a @ ev"]) (simp only: r c1 c2 l1 l2 lt simp_thms if_True)
qed


lemma connect_loop_succeeds:
  "i \<le> k \<Longrightarrow> k < MaxRetries config \<Longrightarrow> attempt_succeeds E (nat k) \<Longrightarrow>
   (\<And>j. i \<le> j \<Longrightarrow> j < k \<Longrightarrow> attempt_fails E (nat j)) \<Longrightarrow>
   \<exists>c ev. connect_loop E addr i config w
           = (None, config\<lparr>FTPConn := Some c\<rparr>, w\<lparr>trace := trace w @ ev\<rparr>)
      \<and> dial E (nat k) = Inr c
      \<and> attempts ev = nat (k - i) + 1 \<and> sleeps ev = nat (k - i)
      \<and> ev \<noteq> [] \<and> last ev = Login c (FTPUser config) (FTPPassword config)"
proof (induction "nat (k - i)" arbitrary: i w)
  case 0
  then have ik: "i = k" by simp
  from 0 obtain c where c: "dial E (nat k) = Inr c" "login E (nat k) = None"
    by (auto simp: attempt_succeeds_def split: sum.splits)
  let ?ev = "[Dial addr (wrap64 (5 * time_Second)), Login c (FTPUser config) (FTPPassword config)]"
  have "connect_loop E addr i config w
          = (None, config\<lparr>FTPConn := Some c\<rparr>, w\<lparr>trace := trace w @ ?ev\<rparr>)"
    using 0 c ik by (subst connect_loop.simps) (simp add: emit_trace)
  then show ?case using c ik by (intro exI[of _ c] exI[of _ ?ev]) simp
next
  case (Suc n)
  then have lt: "i < k" "i < MaxRetries config" by simp_all
  let ?a = "failed_attempt E addr config i"
  let ?w1 = "w\<lparr>trace := trace w @ ?a\<rparr>"
  have n: "n = nat (k - (i + 1))" using Suc.hyps(2) by simp
  have rest: "\<And>j. i + 1 \<le> j \<Longrightarrow> j < k \<Longrightarrow> attempt_fails E (nat j)"
    using Suc.prems by simp
  have le: "i + 1 \<le> k" using lt by simp
  have "\<exists>c ev. connect_loop E addr (i + 1) config ?w1
           = (None, config\<lparr>FTPConn := Some c\<rparr>, ?w1\<lparr>trace := trace ?w1 @ ev\<rparr>)
      \<and> dial E (nat k) = Inr c
      \<and> attempts ev = nat (k - (i + 1)) + 1 \<and> sleeps ev = nat (k - (i + 1))
      \<and> ev \<noteq> [] \<and> last ev = Login c (FTPUser config) (FTPPassword config)"
    using n le Suc.prems(2,3) rest by (rule Suc.hyps(1))
  then obtain c ev where
    ev: "connect_loop E addr (i + 1) config ?w1
           = (None, config\<lparr>FTPConn := Some c\<rparr>, ?w1\<lparr>trace := trace ?w1 @ ev\<rparr>)"
    and c: "dial E (nat k) = Inr c"
    and cnt: "attempts ev = nat (k - (i + 1)) + 1" "sleeps ev = nat (k - (i + 1))"
    and lst: "ev \<noteq> []" "last ev = Login c (FTPUser config) (FTPPassword config)"
    by (elim exE conjE)
  have "attempt_fails E (nat i)" using Suc.prems lt by simp
  then have "connect_loop E addr i config w = connect_loop E addr (i + 1) config ?w1"
    using lt by (simp add: connect_loop_retry)
  then have r: "connect_loop E addr i config w
               = (None, config\<lparr>FTPConn := Some c\<rparr>, w\<lparr>trace := trace w @ (?a @ ev)\<rparr>)"
    by (simp add: ev)
  have c1: "attempts (?a @ ev) = nat (k - i) + 1"
    using cnt(1) lt by (simp add: failed_attempt_counts)
  have c2: "sleeps (?a @ ev) = nat (k - i)"
    using cnt(2) lt by (simp add: failed_attempt_counts)
  have l1: "?a @ ev \<noteq> []" using lst by simp
  have l2: "last (?a @ ev) = Login c (FTPUser config) (FTPPassword config)" using lst by simp
  show ?case
    by (rule exI[of _ c], rule exI[of _ "?a @ ev"]) (simp only: r c c1 c2 l1 l2 simp_thms)
qed

lemma dial_fails_attempt_fails: "dial_fails E i \<Longrightarrow> attempt_fails E i"
  by (simp add: dial_fails_def attempt_fails_def split: sum.splits)

lemma not_succeeds_fails: "\<not> attempt_succeeds E i \<Longrightarrow> attempt_fails E i"
  by (auto simp: attempt_fails_def attempt_succeeds_def split: sum.splits)

text \<open>
  C1. For every configured \<^verbatim>\<open>MaxRetries\<close> of at least 1, when every dial fails,
  \<^verbatim>\<open>establishFTPConnection\<close> makes exactly that many connect attempts and returns the
  error whose message names the number: \<^verbatim>\<open>failed to establish FTP connection after N attempts\<close>.
  The configuration is left as it was.
\<close>

theorem establish_exhausts_after_N_attempts:
  assumes "1 \<le> MaxRetries config"
    and "\<forall>i < nat (MaxRetries config). dial_fails E i"
  shows "\<exists>ev. establishFTPConnection E config w
                = (Some (''failed to establish FTP connection after ''
                           @ fmt_d (MaxRetries config) @ '' attempts''),
                   config, w\<lparr>trace := trace w @ ev\<rparr>)
            \<and> attempts ev = nat (MaxRetries config)"
proof -
  have "\<And>k. 0 \<le> k \<Longrightarrow> k < MaxRetries config \<Longrightarrow> attempt_fails E (nat k)"
    using assms(2) by (simp add: dial_fails_attempt_fails)
  then have "\<exists>ev. connect_loop E (ftp_addr config) 0 config w
           = (Some (exhausted_msg config), config, w\<lparr>trace := trace w @ ev\<rparr>)
      \<and> attempts ev = nat (MaxRetries config - 0) \<and> sleeps ev = nat (MaxRetries config - 0)
      \<and> (if 0 < MaxRetries config
          then ev \<noteq> [] \<and> last ev = Sleep (wrap64 (RetryInterval config)) else ev = [])"
    by (rule connect_loop_exhausts)
  then obtain ev where
    "connect_loop E (ftp_addr config) 0 config w
       = (Some (exhausted_msg config), config, w\<lparr>trace := trace w @ ev\<rparr>)"
    "attempts ev = nat (MaxRetries config - 0)"
    by (elim exE conjE)
  then show ?thesis
    by (intro exI[of _ ev]) (simp add: establishFTPConnection_def exhausted_msg_def)
qed

theorem establish_exhausts_after_N_attempts_witness:
  "\<exists>ev. establishFTPConnection sample_env sample_config empty_world
          = (Some ''failed to establish FTP connection after 3 attempts'', sample_config,
             empty_world\<lparr>trace := trace empty_world @ ev\<rparr>)
       \<and> attempts ev = 3"
proof -
  have h1: "1 \<le> MaxRetries sample_config" by (simp add: sample_config_def)
  have h2: "\<forall>i < nat (MaxRetries sample_config). dial_fails sample_env i"
    by (simp add: sample_env_def dial_fails_def)
  have m: "MaxRetries sample_config = 3" by (simp add: sample_config_def)
  have d: "fmt_d 3 = ''3''" by (simp add: fmt_d_def dec_nat.simps digit_char_def)
  show ?thesis
    using establish_exhausts_after_N_attempts[OF h1 h2, of empty_world] by (simp add: m d)
qed


text \<open>
  C2. When the attempts before the \<open>K\<close>-th fail (in the dial or in the login) and the
  \<open>K\<close>-th succeeds in both, with \<open>1 \<le> K \<le> MaxRetries\<close>, the call returns \<^verbatim>\<open>nil\<close> after
  exactly \<open>K\<close> connect attempts and \<open>K - 1\<close> backoff sleeps, the connection of the \<open>K\<close>-th
  dial is stored in \<^verbatim>\<open>config.FTPConn\<close>, and the login of that attempt is the last thing
  the call does: no further attempt and no sleep follow it.
\<close>

theorem establish_succeeds_on_attempt_K:
  assumes "1 \<le> K" and "int K \<le> MaxRetries config"
    and "\<forall>i < K - 1. attempt_fails E i"
    and "attempt_succeeds E (K - 1)"
  shows "\<exists>c ev. establishFTPConnection E config w
                  = (None, config\<lparr>FTPConn := Some c\<rparr>, w\<lparr>trace := trace w @ ev\<rparr>)
            \<and> dial E (K - 1) = Inr c
            \<and> attempts ev = K \<and> sleeps ev = K - 1
            \<and> ev \<noteq> [] \<and> last ev = Login c (FTPUser config) (FTPPassword config)"
proof -
  have k: "nat (int K - 1) = K - 1" "nat (int K - 1 - 0) = K - 1" "K - 1 + 1 = K"
    using assms(1) by simp_all
  have f: "\<And>j. 0 \<le> j \<Longrightarrow> j < int K - 1 \<Longrightarrow> attempt_fails E (nat j)"
    using assms(3) by simp
  have s: "attempt_succeeds E (nat (int K - 1))" using assms(4) k by simp
  have b: "0 \<le> int K - 1" "int K - 1 < MaxRetries config" using assms(1,2) by simp_all
  have "\<exists>c ev. connect_loop E (ftp_addr config) 0 config w
           = (None, config\<lparr>FTPConn := Some c\<rparr>, w\<lparr>trace := trace w @ ev\<rparr>)
      \<and> dial E (nat (int K - 1)) = Inr c
      \<and> attempts ev = nat (int K - 1 - 0) + 1 \<and> sleeps ev = nat (int K - 1 - 0)
      \<and> ev \<noteq> [] \<and> last ev = Login c (FTPUser config) (FTPPassword config)"
    using b s f by (rule connect_loop_succeeds)
  then show ?thesis
    unfolding establishFTPConnection_def k .
qed

theorem establish_succeeds_on_attempt_K_witness:
  "\<exists>c ev. establishFTPConnection
             (sample_env\<lparr>dial := (\<lambda>i. if i = 0 then Inl ''connection refused'' else Inr (ServerConn i)),
                         login := (\<lambda>i. if i = 1 then Some ''530 Login incorrect'' else None)\<rparr>)
             sample_config empty_world
            = (None, sample_config\<lparr>FTPConn := Some c\<rparr>, empty_world\<lparr>trace := trace empty_world @ ev\<rparr>)
        \<and> ServerConn 2 = c \<and> attempts ev = 3 \<and> sleeps ev = 2
        \<and> ev \<noteq> [] \<and> last ev = Login c ''tester'' ''secret''"
proof -
  let ?E = "sample_env\<lparr>dial := (\<lambda>i. if i = 0 then Inl ''connection refused'' else Inr (ServerConn i)),
                         login := (\<lambda>i. if i = 1 then Some ''530 Login incorrect'' else None)\<rparr>"
  have h1: "1 \<le> (3::nat)" by simp
  have h2: "int 3 \<le> MaxRetries sample_config" by (simp add: sample_config_def)
  have h3: "\<forall>i < 3 - 1. attempt_fails ?E i"
    by (simp add: attempt_fails_def less_Suc_eq numeral_2_eq_2)
  have h4: "attempt_succeeds ?E (3 - 1)" by (simp add: attempt_succeeds_def)
  have u: "FTPUser sample_config = ''tester''" "FTPPassword sample_config = ''secret''"
    by (simp_all add: sample_config_def)
  show ?thesis
    using establish_succeeds_on_attempt_K[OF h1 h2 h3 h4, of empty_world] by (simp add: u)
qed

text \<open>
  C3, as stated, fails: with \<^verbatim>\<open>MaxRetries\<close> 1 and a dial that is refused, the one attempt
  is followed by a sleep of the retry interval (line 298) before the error is returned.
\<close>

theorem single_attempt_failure_sleeps:
  "attempts (since empty_world
      (snd (snd (establishFTPConnection sample_env (sample_config\<lparr>MaxRetries := 1\<rparr>) empty_world)))) = 1
   \<and> sleeps (since empty_world
      (snd (snd (establishFTPConnection sample_env (sample_config\<lparr>MaxRetries := 1\<rparr>) empty_world)))) = 1
   \<and> last (trace
      (snd (snd (establishFTPConnection sample_env (sample_config\<lparr>MaxRetries := 1\<rparr>) empty_world))))
       = Sleep 2000000000"
proof -
  have "trace (snd (snd (establishFTPConnection sample_env (sample_config\<lparr>MaxRetries := 1\<rparr>) empty_world)))
     = [Dial ''127.0.0.1:21'' 5000000000,
        Log ''Failed to establish FTP connection, attempt 1/1: connection refused'',
        Sleep 2000000000]"
    by (simp add: sample_config_def sample_env_def empty_world_def establishFTPConnection_def
        connect_loop.simps emit_def wrap64_def time_Second_def ftp_addr_def fmt_d_def
        dec_nat.simps digit_char_def dial_failed_msg_def)
  then show ?thesis by (simp add: since_def empty_world_def)
qed

text \<open>
  C3, amended. With \<^verbatim>\<open>MaxRetries\<close> 1 the call makes exactly one connect attempt. When
  that attempt succeeds, no sleep follows it; when it fails, the retry interval is slept
  once, after the attempt, and an error is returned.
\<close>

theorem establish_single_attempt:
  assumes "MaxRetries config = 1"
  shows "\<exists>err config' ev. establishFTPConnection E config w
                  = (err, config', w\<lparr>trace := trace w @ ev\<rparr>)
            \<and> attempts ev = 1
            \<and> (if attempt_succeeds E 0 then err = None \<and> sleeps ev = 0
               else err \<noteq> None \<and> sleeps ev = 1
                    \<and> last ev = Sleep (wrap64 (RetryInterval config)))"
proof (cases "attempt_succeeds E 0")
  case True
  have f: "\<And>j. (0::int) \<le> j \<Longrightarrow> j < 0 \<Longrightarrow> attempt_fails E (nat j)" by simp
  have b: "(0::int) \<le> 0" "0 < MaxRetries config" "attempt_succeeds E (nat 0)"
    using assms True by simp_all
  have "\<exists>c ev. connect_loop E (ftp_addr config) 0 config w
           = (None, config\<lparr>FTPConn := Some c\<rparr>, w\<lparr>trace := trace w @ ev\<rparr>)
      \<and> dial E (nat 0) = Inr c
      \<and> attempts ev = nat (0 - 0) + 1 \<and> sleeps ev = nat (0 - 0)
      \<and> ev \<noteq> [] \<and> last ev = Login c (FTPUser config) (FTPPassword config)"
    using b f by (rule connect_loop_succeeds)
  then obtain c ev where
    "connect_loop E (ftp_addr config) 0 config w
       = (None, config\<lparr>FTPConn := Some c\<rparr>, w\<lparr>trace := trace w @ ev\<rparr>)"
    "attempts ev = nat (0 - 0) + 1" "sleeps ev = nat (0 - 0)"
    by (elim exE conjE)
  with True show ?thesis
    unfolding establishFTPConnection_def
    by (intro exI[of _ None] exI[of _ "config\<lparr>FTPConn := Some c\<rparr>"] exI[of _ ev]) simp
next
  case False
  then have "attempt_fails E 0" by (rule not_succeeds_fails)
  then have "\<And>k. 0 \<le> k \<Longrightarrow> k < MaxRetries config \<Longrightarrow> attempt_fails E (nat k)"
    using assms by simp
  then have "\<exists>ev. connect_loop E (ftp_addr config) 0 config w
           = (Some (exhausted_msg config), config, w\<lparr>trace := trace w @ ev\<rparr>)
      \<and> attempts ev = nat (MaxRetries config - 0) \<and> sleeps ev = nat (MaxRetries config - 0)
      \<and> (if 0 < MaxRetries config
          then ev \<noteq> [] \<and> last ev = Sleep (wrap64 (RetryInterval config)) else ev = [])"
    by (rule connect_loop_exhausts)
  then obtain ev where
    "connect_loop E (ftp_addr config) 0 config w
       = (Some (exhausted_msg config), config, w\<lparr>trace := trace w @ ev\<rparr>)"
    "attempts ev = nat (MaxRetries config - 0)" "sleeps ev = nat (MaxRetries config - 0)"
    "if 0 < MaxRetries config
          then ev \<noteq> [] \<and> last ev = Sleep (wrap64 (RetryInterval config)) else ev = []"
    by (elim exE conjE)
  with False assms show ?thesis
    unfolding establishFTPConnection_def
    by (intro exI[of _ "Some (exhausted_msg config)"] exI[of _ config] exI[of _ ev]) simp
qed

theorem establish_single_attempt_witness:
  "\<exists>err config' ev. establishFTPConnection sample_env (sample_config\<lparr>MaxRetries := 1\<rparr>) empty_world
                  = (err, config', empty_world\<lparr>trace := trace empty_world @ ev\<rparr>)
            \<and> attempts ev = 1 \<and> err \<noteq> None \<and> sleeps ev = 1 \<and> last ev = Sleep 2000000000"
proof -
  have h: "MaxRetries (sample_config\<lparr>MaxRetries := 1\<rparr>) = 1" by simp
  have n: "\<not> attempt_succeeds sample_env 0" by (simp add: attempt_succeeds_def sample_env_def)
  have r: "wrap64 (RetryInterval (sample_config\<lparr>MaxRetries := 1\<rparr>)) = 2000000000"
    by (simp add: sample_config_def wrap64_def)
  show ?thesis
    using establish_single_attempt[OF h, of sample_env empty_world] by (simp only: n r if_False)
qed

section \<open>Uploads: every file is attempted\<close>

lemma opened_append [simp]: "opened (a @ b) = opened a @ opened b"
  by (induction a rule: opened.induct) simp_all

lemma outcome_logs_append [simp]: "outcome_logs (a @ b) = outcome_logs a @ outcome_logs b"
  by (induction a rule: outcome_logs.induct) simp_all

lemma logged_append [simp]: "logged (a @ b) = logged a @ logged b"
  by (induction a rule: logged.induct) simp_all

lemma uploaded_msg_outcome: "is_outcome_msg (uploaded_msg file)" "outcome_of_file file (uploaded_msg file)"
  by (simp_all add: is_outcome_msg_def starts_with_def uploaded_msg_def outcome_of_file_def)

lemma upload_failed_outcome:
  "is_outcome_msg (upload_failed_prefix file @ e)" "outcome_of_file file (upload_failed_prefix file @ e)"
  by (simp_all add: is_outcome_msg_def starts_with_def upload_failed_prefix_def outcome_of_file_def)

lemma outcome_msgs_not_completion:
  "uploaded_msg file \<noteq> ''Snapshot upload completed.''"
  "upload_failed_prefix file @ e \<noteq> ''Snapshot upload completed.''"
  "''Failed to close the file: '' @ e \<noteq> ''Snapshot upload completed.''"
  by (simp_all add: uploaded_msg_def upload_failed_prefix_def)

lemma uploadFile_returns:
  assumes "FTPConn config = Some c"
  shows "\<exists>err ev. uploadFile E config src tgt w = (Returns err, w\<lparr>trace := trace w @ ev\<rparr>)
           \<and> opened ev = [src] \<and> outcome_logs ev = [] \<and> sleeps ev = 0
           \<and> ''Snapshot upload completed.'' \<notin> set (logged ev)"
proof (cases "os_open E src")
  case (Some e)
  then show ?thesis
    by (intro exI[of _ "Some e"] exI[of _ "[Open src]"]) (simp add: uploadFile_def emit_trace)
next
  case None
  show ?thesis
  proof (cases "file_close E src")
    case cn: None
    show ?thesis
      by (intro exI[of _ "stor E c tgt src"] exI[of _ "[Open src, Stor c tgt src, Close src]"])
         (simp add: uploadFile_def emit_trace None cn assms)
  next
    case cs: (Some closeErr)
    show ?thesis
    proof (cases "stor E c tgt src")
      case sn: None
      show ?thesis
        by (intro exI[of _ "Some closeErr"] exI[of _ "[Open src, Stor c tgt src, Close src]"])
           (simp add: uploadFile_def emit_trace None cs sn assms)
    next
      case (Some e)
      show ?thesis
        by (intro exI[of _ "Some e"]
              exI[of _ "[Open src, Stor c tgt src, Close src, Log (''Failed to close the file: '' @ closeErr)]"])
           (simp add: uploadFile_def emit_trace None cs Some assms is_outcome_msg_def starts_with_def)
    qed
  qed
qed

lemma upload_each_all:
  assumes "FTPConn config = Some c"
  shows "\<exists>ev. upload_each E config fs w = (Returns (), w\<lparr>trace := trace w @ ev\<rparr>)
           \<and> opened ev = fs \<and> list_all2 outcome_of_file fs (outcome_logs ev)
           \<and> sleeps ev = length fs \<and> ''Snapshot upload completed.'' \<notin> set (logged ev)"
proof (induction fs arbitrary: w)
  case Nil
  show ?case by (intro exI[of _ "[]"]) simp
next
  case (Cons f rest)
  from uploadFile_returns[OF assms, of E f "Join (OutputDir config) (Base f)" w]
  obtain err e1 where
    u: "uploadFile E config f (Join (OutputDir config) (Base f)) w
          = (Returns err, w\<lparr>trace := trace w @ e1\<rparr>)"
    and e1: "opened e1 = [f]" "outcome_logs e1 = []" "sleeps e1 = 0"
      "''Snapshot upload completed.'' \<notin> set (logged e1)"
    by (elim exE conjE)
  let ?m = "case err of Some e \<Rightarrow> upload_failed_prefix f @ e | None \<Rightarrow> uploaded_msg f"
  let ?e2 = "e1 @ [Log ?m, Sleep (wrap64 (time_Millisecond * wrap64 (Interval config)))]"
  let ?w2 = "w\<lparr>trace := trace w @ ?e2\<rparr>"
  from Cons.IH[of ?w2] obtain e3 where
    r: "upload_each E config rest ?w2 = (Returns (), ?w2\<lparr>trace := trace ?w2 @ e3\<rparr>)"
    and e3: "opened e3 = rest" "list_all2 outcome_of_file rest (outcome_logs e3)"
      "sleeps e3 = length rest" "''Snapshot upload completed.'' \<notin> set (logged e3)"
    by (elim exE conjE)
  have m: "is_outcome_msg ?m" "outcome_of_file f ?m" "?m \<noteq> ''Snapshot upload completed.''"
    by (cases err; simp add: uploaded_msg_outcome upload_failed_outcome outcome_msgs_not_completion)+
  have "upload_each E config (f # rest) w = (Returns (), w\<lparr>trace := trace w @ (?e2 @ e3)\<rparr>)"
    using u r by (simp add: emit_trace)
  moreover have "opened (?e2 @ e3) = f # rest" using e1 e3 by simp
  moreover have "list_all2 outcome_of_file (f # rest) (outcome_logs (?e2 @ e3))"
    using e1 e3 m by simp
  moreover have "sleeps (?e2 @ e3) = length (f # rest)" using e1 e3 by simp
  moreover have "''Snapshot upload completed.'' \<notin> set (logged (?e2 @ e3))"
    using e1 e3 m by simp
  ultimately show ?case by (intro exI[of _ "?e2 @ e3"] conjI)
qed

text \<open>
  C5. Whatever the outcome of each single upload, \<^verbatim>\<open>uploadSnapshots\<close> walks the whole
  list that Glob returned: with a connection in place it opens every file for upload, in
  the order of the list, and logs one outcome line per file, naming that file (uploaded,
  or failed with the error). The completion line is logged once, last, after every file
  has been attempted. The failure of a file never ends the loop.
\<close>

theorem uploadSnapshots_attempts_every_file:
  assumes "glob_snapshots E (SnapshotOutputDir config) = Inr snapshotFiles"
    and "FTPConn config = Some c"
  shows "\<exists>ev. uploadSnapshots E config w
                = (Returns (), w\<lparr>trace := trace w @ ev @ [Log ''Snapshot upload completed.'']\<rparr>)
            \<and> opened ev = snapshotFiles
            \<and> list_all2 outcome_of_file snapshotFiles (outcome_logs ev)
            \<and> ''Snapshot upload completed.'' \<notin> set (logged ev)"
proof -
  let ?w1 = "w\<lparr>trace := trace w @ [Log ''Uploading snapshots to FTPS...'']\<rparr>"
  from upload_each_all[OF assms(2), of E snapshotFiles ?w1] obtain ev where
    r: "upload_each E config snapshotFiles ?w1 = (Returns (), ?w1\<lparr>trace := trace ?w1 @ ev\<rparr>)"
    and ev: "opened ev = snapshotFiles" "list_all2 outcome_of_file snapshotFiles (outcome_logs ev)"
      "''Snapshot upload completed.'' \<notin> set (logged ev)"
    by (elim exE conjE)
  let ?ev = "Log ''Uploading snapshots to FTPS...'' # ev"
  have "uploadSnapshots E config w
          = (Returns (), w\<lparr>trace := trace w @ ?ev @ [Log ''Snapshot upload completed.'']\<rparr>)"
    using r assms(1) by (simp add: uploadSnapshots_def emit_trace)
  moreover have "opened ?ev = snapshotFiles" using ev by simp
  moreover have "list_all2 outcome_of_file snapshotFiles (outcome_logs ?ev)"
    using ev by (simp add: is_outcome_msg_def starts_with_def)
  moreover have "''Snapshot upload completed.'' \<notin> set (logged ?ev)" using ev by simp
  ultimately show ?thesis by (intro exI[of _ ?ev] conjI)
qed

theorem uploadSnapshots_attempts_every_file_witness:
  "\<exists>ev. uploadSnapshots
          (sample_env\<lparr>readdir := (\<lambda>d. [''snapshot002.jpg'', ''notes.txt'', ''snapshot003.jpg'',
                                          ''snapshot001.jpg'']),
                      os_open := (\<lambda>p. if p = ''out/snapshots/snapshot002.jpg''
                                       then Some ''no such file or directory'' else None)\<rparr>)
          (sample_config\<lparr>FTPConn := Some (ServerConn 1)\<rparr>) empty_world
        = (Returns (), empty_world\<lparr>trace := trace empty_world @ ev @ [Log ''Snapshot upload completed.'']\<rparr>)
      \<and> opened ev = [''out/snapshots/snapshot001.jpg'', ''out/snapshots/snapshot002.jpg'',
                       ''out/snapshots/snapshot003.jpg'']
      \<and> list_all2 outcome_of_file
            [''out/snapshots/snapshot001.jpg'', ''out/snapshots/snapshot002.jpg'',
             ''out/snapshots/snapshot003.jpg''] (outcome_logs ev)
      \<and> ''Snapshot upload completed.'' \<notin> set (logged ev)"
proof -
  let ?E = "sample_env\<lparr>readdir := (\<lambda>d. [''snapshot002.jpg'', ''notes.txt'', ''snapshot003.jpg'',
                                          ''snapshot001.jpg'']),
                      os_open := (\<lambda>p. if p = ''out/snapshots/snapshot002.jpg''
                                       then Some ''no such file or directory'' else None)\<rparr>"
  let ?c = "sample_config\<lparr>FTPConn := Some (ServerConn 1)\<rparr>"
  have g: "glob_snapshots ?E (SnapshotOutputDir ?c)
             = Inr [''out/snapshots/snapshot001.jpg'', ''out/snapshots/snapshot002.jpg'',
                    ''out/snapshots/snapshot003.jpg'']"
    by (simp add: glob_snapshots_def sample_env_def sample_config_def match_snapshot_def Join_def)
  have c: "FTPConn ?c = Some (ServerConn 1)" by simp
  show ?thesis
    using uploadSnapshots_attempts_every_file[OF g c, of empty_world] .
qed

text \<open>
  The same run, evaluated: the second of three files cannot be opened, and the files
  after it are still uploaded.
\<close>

lemma uploadSnapshots_example:
  "logged (trace (snd (uploadSnapshots
          (sample_env\<lparr>readdir := (\<lambda>d. [''snapshot002.jpg'', ''notes.txt'', ''snapshot003.jpg'',
                                          ''snapshot001.jpg'']),
                      os_open := (\<lambda>p. if p = ''out/snapshots/snapshot002.jpg''
                                       then Some ''no such file or directory'' else None)\<rparr>)
          (sample_config\<lparr>FTPConn := Some (ServerConn 1)\<rparr>) empty_world)))
   = [''Uploading snapshots to FTPS...'',
      ''Uploaded snapshot file '' @ [CHR 0x27] @ ''out/snapshots/snapshot001.jpg'' @ [CHR 0x27],
      ''Failed to upload snapshot file '' @ [CHR 0x27] @ ''out/snapshots/snapshot002.jpg'' @ [CHR 0x27]
         @ '': no such file or directory'',
      ''Uploaded snapshot file '' @ [CHR 0x27] @ ''out/snapshots/snapshot003.jpg'' @ [CHR 0x27],
      ''Snapshot upload completed.'']"
  by (simp add: uploadSnapshots_def glob_snapshots_def sample_env_def sample_config_def
      match_snapshot_def Join_def Base_def uploadFile_def emit_def empty_world_def
      uploaded_msg_def upload_failed_prefix_def)

text \<open>
  C10. When the local file opens and \<^verbatim>\<open>Stor\<close> succeeds but closing the file fails,
  \<^verbatim>\<open>uploadFile\<close> returns the error of the close, although the transfer was made.
\<close>

theorem uploadFile_returns_close_error:
  assumes "os_open E sourceFile = None" and "FTPConn config = Some c"
    and "stor E c targetFile sourceFile = None" and "file_close E sourceFile = Some closeErr"
  shows "uploadFile E config sourceFile targetFile w
           = (Returns (Some closeErr),
              w\<lparr>trace := trace w @ [Open sourceFile, Stor c targetFile sourceFile, Close sourceFile]\<rparr>)"
  using assms by (simp add: uploadFile_def emit_trace)

theorem uploadFile_returns_close_error_witness:
  "uploadFile (sample_env\<lparr>file_close := (\<lambda>p. Some ''input/output error'')\<rparr>)
       (sample_config\<lparr>FTPConn := Some (ServerConn 1)\<rparr>)
       ''out/snapshots/snapshot001.jpg'' ''/uploads/snapshot001.jpg'' empty_world
     = (Returns (Some ''input/output error''),
        empty_world\<lparr>trace := trace empty_world @
          [Open ''out/snapshots/snapshot001.jpg'',
           Stor (ServerConn 1) ''/uploads/snapshot001.jpg'' ''out/snapshots/snapshot001.jpg'',
           Close ''out/snapshots/snapshot001.jpg'']\<rparr>)"
proof -
  let ?E = "sample_env\<lparr>file_close := (\<lambda>p. Some ''input/output error'')\<rparr>"
  let ?c = "sample_config\<lparr>FTPConn := Some (ServerConn 1)\<rparr>"
  have h1: "os_open ?E ''out/snapshots/snapshot001.jpg'' = None" by (simp add: sample_env_def)
  have h2: "FTPConn ?c = Some (ServerConn 1)" by simp
  have h3: "stor ?E (ServerConn 1) ''/uploads/snapshot001.jpg'' ''out/snapshots/snapshot001.jpg'' = None"
    by (simp add: sample_env_def)
  have h4: "file_close ?E ''out/snapshots/snapshot001.jpg'' = Some ''input/output error''" by simp
  show ?thesis using uploadFile_returns_close_error[OF h1 h2 h3 h4, of empty_world] .
qed

section \<open>The manifest: which rows are written\<close>

lemma collect_records_eq:
  "\<exists>ev. collect_records E fs records w
          = (records @ map record_of_pair (manifest_pairs E fs), w\<lparr>trace := trace w @ ev\<rparr>)
       \<and> logged ev = map (\<lambda>f. stat_failed_msg f (stat_error E f)) (filter (\<lambda>f. \<not> stat_ok E f) fs)"
proof (induction fs arbitrary: records w)
  case Nil
  show ?case by (intro exI[of _ "[]"]) (simp add: manifest_pairs_def)
next
  case (Cons f rest)
  show ?case
  proof (cases "os_stat E f")
    case (Inl err)
    let ?w1 = "w\<lparr>trace := trace w @ [Log (stat_failed_msg f err)]\<rparr>"
    from Cons.IH[of records ?w1] obtain ev where
      r: "collect_records E rest records ?w1
            = (records @ map record_of_pair (manifest_pairs E rest), ?w1\<lparr>trace := trace ?w1 @ ev\<rparr>)"
      and l: "logged ev = map (\<lambda>f. stat_failed_msg f (stat_error E f)) (filter (\<lambda>f. \<not> stat_ok E f) rest)"
      by (elim exE conjE)
    show ?thesis
      using Inl r l
      by (intro exI[of _ "Log (stat_failed_msg f err) # ev"])
         (simp add: emit_trace manifest_pairs_def stat_ok_def stat_error_def)
  next
    case (Inr mtime)
    from Cons.IH[of "records @ [[Base f, mtime]]" w] obtain ev where
      r: "collect_records E rest (records @ [[Base f, mtime]]) w
            = ((records @ [[Base f, mtime]]) @ map record_of_pair (manifest_pairs E rest),
               w\<lparr>trace := trace w @ ev\<rparr>)"
      and l: "logged ev = map (\<lambda>f. stat_failed_msg f (stat_error E f)) (filter (\<lambda>f. \<not> stat_ok E f) rest)"
      by (elim exE conjE)
    show ?thesis
      using Inr r l
      by (intro exI[of _ ev])
         (simp add: manifest_pairs_def stat_ok_def mtime_of_def record_of_pair_def)
  qed
qed

lemma generateMetadata_written:
  assumes "glob_snapshots E (SnapshotOutputDir config) = Inr snapshotFiles"
    and "snapshotFiles \<noteq> []"
    and "os_create E (CsvOutputFile config) = None"
    and "file_write E (CsvOutputFile config) = None"
  shows "files (generateMetadata E config w) (CsvOutputFile config)
           = Some (csv_WriteAll (csv_header # map record_of_pair (manifest_pairs E snapshotFiles)))"
    and "set (map (\<lambda>f. stat_failed_msg f (stat_error E f)) (filter (\<lambda>f. \<not> stat_ok E f) snapshotFiles))
           \<subseteq> set (logged (since w (generateMetadata E config w)))"
proof -
  let ?w1 = "w\<lparr>trace := trace w @ [Log ''Generating metadata...'']\<rparr>"
  from collect_records_eq[of E snapshotFiles "[csv_header]" ?w1] obtain ev where
    r: "collect_records E snapshotFiles [csv_header] ?w1
          = ([csv_header] @ map record_of_pair (manifest_pairs E snapshotFiles),
             ?w1\<lparr>trace := trace ?w1 @ ev\<rparr>)"
    and l: "logged ev = map (\<lambda>f. stat_failed_msg f (stat_error E f)) (filter (\<lambda>f. \<not> stat_ok E f) snapshotFiles)"
    by (elim exE conjE)
  show "files (generateMetadata E config w) (CsvOutputFile config)
           = Some (csv_WriteAll (csv_header # map record_of_pair (manifest_pairs E snapshotFiles)))"
    using assms r
    by (simp add: generateMetadata_def emit_trace Let_def split: option.splits)
  show "set (map (\<lambda>f. stat_failed_msg f (stat_error E f)) (filter (\<lambda>f. \<not> stat_ok E f) snapshotFiles))
           \<subseteq> set (logged (since w (generateMetadata E config w)))"
    using assms r l
    by (auto simp: generateMetadata_def emit_trace since_def logged_append Let_def split: option.splits)
qed













text \<open>
  C9. When \<^verbatim>\<open>os.Stat\<close> fails for a file of the Glob, a line naming the file is logged and
  the file has no row; the rows of the files that can be statted are all written, in the
  order of the Glob. With at least one such failure the manifest has fewer rows than the
  number of matching files plus one.
\<close>

theorem generateMetadata_omits_unreadable:
  assumes "glob_snapshots E (SnapshotOutputDir config) = Inr snapshotFiles"
    and "snapshotFiles \<noteq> []"
    and "os_create E (CsvOutputFile config) = None"
    and "file_write E (CsvOutputFile config) = None"
  shows "files (generateMetadata E config w) (CsvOutputFile config)
           = Some (csv_WriteAll (csv_header # map record_of_pair (manifest_pairs E snapshotFiles)))
       \<and> manifest_pairs E snapshotFiles
           = map (\<lambda>file. (Base file, mtime_of E file)) (filter (stat_ok E) snapshotFiles)
       \<and> (\<forall>file \<in> set snapshotFiles. \<not> stat_ok E file \<longrightarrow>
             stat_failed_msg file (stat_error E file)
               \<in> set (logged (since w (generateMetadata E config w))))
       \<and> ((\<exists>file \<in> set snapshotFiles. \<not> stat_ok E file) \<longrightarrow>
             length (csv_header # map record_of_pair (manifest_pairs E snapshotFiles))
               < length snapshotFiles + 1)"
proof -
  have a: "files (generateMetadata E config w) (CsvOutputFile config)
           = Some (csv_WriteAll (csv_header # map record_of_pair (manifest_pairs E snapshotFiles)))"
    using assms by (rule generateMetadata_written(1))
  have "set (map (\<lambda>f. stat_failed_msg f (stat_error E f)) (filter (\<lambda>f. \<not> stat_ok E f) snapshotFiles))
           \<subseteq> set (logged (since w (generateMetadata E config w)))"
    using assms by (rule generateMetadata_written(2))
  then have b: "\<forall>file \<in> set snapshotFiles. \<not> stat_ok E file \<longrightarrow>
             stat_failed_msg file (stat_error E file)
               \<in> set (logged (since w (generateMetadata E config w)))"
    by auto
  have c: "(\<exists>file \<in> set snapshotFiles. \<not> stat_ok E file) \<longrightarrow>
             length (csv_header # map record_of_pair (manifest_pairs E snapshotFiles))
               < length snapshotFiles + 1"
    by (auto simp: manifest_pairs_def intro: length_filter_less)
  show ?thesis using a b c by (simp add: manifest_pairs_def)
qed


theorem generateMetadata_omits_unreadable_witness:
  "files (generateMetadata
            (sample_env\<lparr>readdir := (\<lambda>d. [''snapshot003.jpg'', ''snapshot001.jpg'', ''snapshot002.jpg'']),
                        os_stat := (\<lambda>p. if p = ''out/snapshots/snapshot002.jpg''
                                          then Inl ''permission denied''
                                          else Inr ''2023-07-01 10:00:00 +0000 UTC'')\<rparr>)
            sample_config empty_world) ''out/metadata.csv''
     = Some (csv_WriteAll [[''Filename'', ''Creation Time''],
                           [''snapshot001.jpg'', ''2023-07-01 10:00:00 +0000 UTC''],
                           [''snapshot003.jpg'', ''2023-07-01 10:00:00 +0000 UTC'']])
   \<and> stat_failed_msg ''out/snapshots/snapshot002.jpg'' ''permission denied''
       \<in> set (logged (since empty_world (generateMetadata
            (sample_env\<lparr>readdir := (\<lambda>d. [''snapshot003.jpg'', ''snapshot001.jpg'', ''snapshot002.jpg'']),
                        os_stat := (\<lambda>p. if p = ''out/snapshots/snapshot002.jpg''
                                          then Inl ''permission denied''
                                          else Inr ''2023-07-01 10:00:00 +0000 UTC'')\<rparr>)
            sample_config empty_world)))"
proof -
  let ?E = "sample_env\<lparr>readdir := (\<lambda>d. [''snapshot003.jpg'', ''snapshot001.jpg'', ''snapshot002.jpg'']),
                        os_stat := (\<lambda>p. if p = ''out/snapshots/snapshot002.jpg''
                                          then Inl ''permission denied''
                                          else Inr ''2023-07-01 10:00:00 +0000 UTC'')\<rparr>"
  let ?fs = "[''out/snapshots/snapshot001.jpg'', ''out/snapshots/snapshot002.jpg'',
              ''out/snapshots/snapshot003.jpg'']"
  have g: "glob_snapshots ?E (SnapshotOutputDir sample_config) = Inr ?fs"
    by (simp add: glob_snapshots_def sample_env_def sample_config_def match_snapshot_def Join_def)
  have ne: "?fs \<noteq> []" by simp
  have c: "os_create ?E (CsvOutputFile sample_config) = None" by (simp add: sample_env_def)
  have wr: "file_write ?E (CsvOutputFile sample_config) = None" by (simp add: sample_env_def)
  have p: "CsvOutputFile sample_config = ''out/metadata.csv''" by (simp add: sample_config_def)
  have m: "manifest_pairs ?E ?fs
             = [(''snapshot001.jpg'', ''2023-07-01 10:00:00 +0000 UTC''),
                (''snapshot003.jpg'', ''2023-07-01 10:00:00 +0000 UTC'')]"
    by (simp add: manifest_pairs_def stat_ok_def mtime_of_def Base_def)
  have s: "\<not> stat_ok ?E ''out/snapshots/snapshot002.jpg''"
    "stat_error ?E ''out/snapshots/snapshot002.jpg'' = ''permission denied''"
    by (simp_all add: stat_ok_def stat_error_def)
  from generateMetadata_omits_unreadable[OF g ne c wr, of empty_world]
  have "files (generateMetadata ?E sample_config empty_world) (CsvOutputFile sample_config)
           = Some (csv_WriteAll (csv_header # map record_of_pair (manifest_pairs ?E ?fs)))"
    and "\<forall>file \<in> set ?fs. \<not> stat_ok ?E file \<longrightarrow>
             stat_failed_msg file (stat_error ?E file)
               \<in> set (logged (since empty_world (generateMetadata ?E sample_config empty_world)))"
    by blast+
  then show ?thesis using s by (simp add: p m csv_header_def record_of_pair_def)
qed

section \<open>The manifest: written and read back\<close>

lemma parse_plain_run:
  "\<forall>c \<in> set f. \<not> special_char c \<Longrightarrow>
   csv_parse_from InPlain fld row rows (f @ rest) = csv_parse_from InPlain (fld @ f) row rows rest"
  by (induction f arbitrary: fld) (simp_all add: special_char_def)

lemma parse_quoted_run:
  "csv_parse_from InQuoted fld row rows (quoted_body f @ CHR 0x22 # rest)
     = csv_parse_from AfterQuote (fld @ f) row rows rest"
  by (induction f arbitrary: fld) (simp_all add: quoted_body_def)

lemma unquoted_no_special: "\<not> fieldNeedsQuotes f \<Longrightarrow> \<forall>c \<in> set f. \<not> special_char c"
  by (auto simp: fieldNeedsQuotes_def split: if_splits)

lemma parse_field_comma:
  assumes "st = RecordStart \<or> st = FieldStart"
  shows "csv_parse_from st [] row rows (write_field f @ CHR '','' # rest)
           = csv_parse_from FieldStart [] (row @ [f]) rows rest"
proof (cases "fieldNeedsQuotes f")
  case True
  then have "csv_parse_from st [] row rows (write_field f @ CHR '','' # rest)
      = csv_parse_from InQuoted [] row rows (quoted_body f @ CHR 0x22 # CHR '','' # rest)"
    using assms by (auto simp: write_field_def)
  also have "\<dots> = csv_parse_from AfterQuote ([] @ f) row rows (CHR '','' # rest)"
    by (rule parse_quoted_run)
  finally show ?thesis by simp
next
  case False
  then have ns: "\<forall>c \<in> set f. \<not> special_char c" by (rule unquoted_no_special)
  show ?thesis
  proof (cases f)
    case Nil
    then show ?thesis using assms False by (auto simp: write_field_def)
  next
    case (Cons c f')
    then have "csv_parse_from st [] row rows (write_field f @ CHR '','' # rest)
        = csv_parse_from InPlain [c] row rows (f' @ CHR '','' # rest)"
      using assms False ns by (auto simp: write_field_def special_char_def)
    also have "\<dots> = csv_parse_from InPlain ([c] @ f') row rows (CHR '','' # rest)"
      using ns Cons by (intro parse_plain_run) simp
    finally show ?thesis using Cons by simp
  qed
qed

lemma parse_field_newline:
  assumes "st = RecordStart \<or> st = FieldStart"
  shows "csv_parse_from st [] row rows (write_field f @ CHR 0x0A # rest)
           = csv_parse_from RecordStart [] [] (rows @ [row @ [f]]) rest"
proof (cases "fieldNeedsQuotes f")
  case True
  then have "csv_parse_from st [] row rows (write_field f @ CHR 0x0A # rest)
      = csv_parse_from InQuoted [] row rows (quoted_body f @ CHR 0x22 # CHR 0x0A # rest)"
    using assms by (auto simp: write_field_def)
  also have "\<dots> = csv_parse_from AfterQuote ([] @ f) row rows (CHR 0x0A # rest)"
    by (rule parse_quoted_run)
  finally show ?thesis by simp
next
  case False
  then have ns: "\<forall>c \<in> set f. \<not> special_char c" by (rule unquoted_no_special)
  show ?thesis
  proof (cases f)
    case Nil
    then show ?thesis using assms False by (auto simp: write_field_def)
  next
    case (Cons c f')
    then have "csv_parse_from st [] row rows (write_field f @ CHR 0x0A # rest)
        = csv_parse_from InPlain [c] row rows (f' @ CHR 0x0A # rest)"
      using assms False ns by (auto simp: write_field_def special_char_def)
    also have "\<dots> = csv_parse_from InPlain ([c] @ f') row rows (CHR 0x0A # rest)"
      using ns Cons by (intro parse_plain_run) simp
    finally show ?thesis using Cons by simp
  qed
qed

lemma parse_record:
  "fs \<noteq> [] \<Longrightarrow> st = RecordStart \<or> st = FieldStart \<Longrightarrow>
   csv_parse_from st [] row rows (write_fields fs @ CHR 0x0A # rest)
     = csv_parse_from RecordStart [] [] (rows @ [row @ fs]) rest"
proof (induction fs arbitrary: st row rule: write_fields.induct)
  case 1
  then show ?case by simp
next
  case (2 f)
  then show ?case by (simp add: parse_field_newline)
next
  case (3 f g fs)
  have "csv_parse_from st [] row rows (write_fields (f # g # fs) @ CHR 0x0A # rest)
      = csv_parse_from st [] row rows (write_field f @ CHR '','' # (write_fields (g # fs) @ CHR 0x0A # rest))"
    by simp
  also have "\<dots> = csv_parse_from FieldStart [] (row @ [f]) rows (write_fields (g # fs) @ CHR 0x0A # rest)"
    using "3.prems"(2) by (rule parse_field_comma)
  also have "\<dots> = csv_parse_from RecordStart [] [] (rows @ [(row @ [f]) @ g # fs]) rest"
    by (rule "3.IH") simp_all
  finally show ?case by simp
qed

lemma parse_records:
  "\<forall>r \<in> set records. r \<noteq> [] \<Longrightarrow>
   csv_parse_from RecordStart [] [] rows (csv_WriteAll records @ rest)
     = csv_parse_from RecordStart [] [] (rows @ records) rest"
proof (induction records arbitrary: rows)
  case Nil
  then show ?case by (simp add: csv_WriteAll_def)
next
  case (Cons r records)
  have "csv_parse_from RecordStart [] [] rows (csv_WriteAll (r # records) @ rest)
      = csv_parse_from RecordStart [] [] rows (write_fields r @ CHR 0x0A # (csv_WriteAll records @ rest))"
    by (simp add: csv_WriteAll_def csv_Write_def)
  also have "\<dots> = csv_parse_from RecordStart [] [] (rows @ [[] @ r]) (csv_WriteAll records @ rest)"
    using Cons.prems by (intro parse_record) simp_all
  also have "\<dots> = csv_parse_from RecordStart [] [] ((rows @ [[] @ r]) @ records) rest"
    using Cons.prems by (intro Cons.IH) simp
  finally show ?case by simp
qed

text \<open>
  Whatever the fields hold (commas, quotes, line breaks, leading spaces), reading back
  what \<open>csv_WriteAll\<close> wrote gives the records that were written, as long as no record
  is without fields.
\<close>

lemma csv_round_trip:
  "\<forall>r \<in> set records. r \<noteq> [] \<Longrightarrow> csv_parse (csv_WriteAll records) = Some records"
  using parse_records[of records "[]" "[]"] by (simp add: csv_parse_def)

text \<open>
  C8. The manifest that \<^verbatim>\<open>generateMetadata\<close> writes, read back as delimited tabular
  text, is the header row followed by exactly the (filename, timestamp) pairs the manifest
  was built from, in the same order.
\<close>

theorem manifest_round_trip:
  assumes "glob_snapshots E (SnapshotOutputDir config) = Inr snapshotFiles"
    and "snapshotFiles \<noteq> []"
    and "os_create E (CsvOutputFile config) = None"
    and "file_write E (CsvOutputFile config) = None"
  shows "\<exists>manifest. files (generateMetadata E config w) (CsvOutputFile config) = Some manifest
           \<and> csv_parse manifest
               = Some ([''Filename'', ''Creation Time'']
                       # map (\<lambda>p. [fst p, snd p]) (manifest_pairs E snapshotFiles))"
proof -
  let ?records = "csv_header # map record_of_pair (manifest_pairs E snapshotFiles)"
  have "files (generateMetadata E config w) (CsvOutputFile config) = Some (csv_WriteAll ?records)"
    using assms by (rule generateMetadata_written(1))
  moreover have "\<forall>r \<in> set ?records. r \<noteq> []"
    by (auto simp: csv_header_def record_of_pair_def)
  then have "csv_parse (csv_WriteAll ?records) = Some ?records" by (rule csv_round_trip)
  then have "csv_parse (csv_WriteAll ?records)
               = Some ([''Filename'', ''Creation Time'']
                       # map (\<lambda>p. [fst p, snd p]) (manifest_pairs E snapshotFiles))"
    by (simp add: csv_header_def record_of_pair_def)
  ultimately show ?thesis by (intro exI[of _ "csv_WriteAll ?records"] conjI)
qed

text \<open>
  The writer and the reader on an example: a comma, a quote or a leading space puts a
  field in quotes, and the reader takes a carriage return before the line feed.
\<close>

lemma csv_WriteAll_example:
  "csv_WriteAll [[''Filename'', ''Creation Time''],
                 [''snapshot1,2.jpg'', ''2023-07-01 10:00:01 +0000 UTC''],
                 [''snapshot'' @ [CHR 0x22] @ ''a'' @ [CHR 0x22] @ ''.jpg'', '' x'']]
     = ''Filename,Creation Time'' @ [CHR 0x0A]
       @ [CHR 0x22] @ ''snapshot1,2.jpg'' @ [CHR 0x22] @ '',2023-07-01 10:00:01 +0000 UTC'' @ [CHR 0x0A]
       @ [CHR 0x22] @ ''snapshot'' @ [CHR 0x22, CHR 0x22] @ ''a'' @ [CHR 0x22, CHR 0x22] @ ''.jpg''
       @ [CHR 0x22] @ '','' @ [CHR 0x22] @ '' x'' @ [CHR 0x22] @ [CHR 0x0A]"
  by (simp add: csv_WriteAll_def csv_Write_def write_field_def fieldNeedsQuotes_def special_char_def
      quoted_body_def first_rune_is_space_def starts_with_def)

lemma csv_parse_example:
  "csv_parse (''Filename,Creation Time'' @ [CHR 0x0A]
       @ [CHR 0x22] @ ''snapshot1,2.jpg'' @ [CHR 0x22] @ '',2023-07-01 10:00:01 +0000 UTC'' @ [CHR 0x0D, CHR 0x0A])
     = Some [[''Filename'', ''Creation Time''],
             [''snapshot1,2.jpg'', ''2023-07-01 10:00:01 +0000 UTC'']]"
  by (simp add: csv_parse_def)

theorem manifest_round_trip_witness:
  "\<exists>manifest. files (generateMetadata
            (sample_env\<lparr>readdir := (\<lambda>d. [''snapshot1,2.jpg'', ''snapshot001.jpg'']),
                        os_stat := (\<lambda>p. Inr ''2023-07-01 10:00:01 +0000 UTC'')\<rparr>)
            sample_config empty_world) ''out/metadata.csv'' = Some manifest
      \<and> csv_parse manifest
           = Some [[''Filename'', ''Creation Time''],
                   [''snapshot001.jpg'', ''2023-07-01 10:00:01 +0000 UTC''],
                   [''snapshot1,2.jpg'', ''2023-07-01 10:00:01 +0000 UTC'']]"
proof -
  let ?E = "sample_env\<lparr>readdir := (\<lambda>d. [''snapshot1,2.jpg'', ''snapshot001.jpg'']),
                        os_stat := (\<lambda>p. Inr ''2023-07-01 10:00:01 +0000 UTC'')\<rparr>"
  let ?fs = "[''out/snapshots/snapshot001.jpg'', ''out/snapshots/snapshot1,2.jpg'']"
  have g: "glob_snapshots ?E (SnapshotOutputDir sample_config) = Inr ?fs"
    by (simp add: glob_snapshots_def sample_env_def sample_config_def match_snapshot_def Join_def)
  have ne: "?fs \<noteq> []" by simp
  have c: "os_create ?E (CsvOutputFile sample_config) = None" by (simp add: sample_env_def)
  have wr: "file_write ?E (CsvOutputFile sample_config) = None" by (simp add: sample_env_def)
  have p: "CsvOutputFile sample_config = ''out/metadata.csv''" by (simp add: sample_config_def)
  have m: "manifest_pairs ?E ?fs
             = [(''snapshot001.jpg'', ''2023-07-01 10:00:01 +0000 UTC''),
                (''snapshot1,2.jpg'', ''2023-07-01 10:00:01 +0000 UTC'')]"
    by (simp add: manifest_pairs_def stat_ok_def mtime_of_def Base_def)
  show ?thesis
    using manifest_round_trip[OF g ne c wr, of empty_world] unfolding p m by simp
qed

section \<open>The coordinator: the order of the stages\<close>

lemma head_call:
  assumes "g \<in> allowed i" and "g = (b, Call f # rest)"
  shows "(i = 0 \<and> f = TestVideo \<and> rest = [Send testVideoDone])
       \<or> (i = 1 \<and> f = Snapshots \<and> rest = [Send snapshotsDone])
       \<or> (i = 2 \<and> f = Metadata \<and> rest = [])
       \<or> (i = 3 \<and> f = UploadSnapshots \<and> rest = [WgDone])
       \<or> (i = 4 \<and> f = UploadMetadata \<and> rest = [WgDone])"
  using assms by (auto simp: allowed_def split: if_splits)

lemma allowed_call:
  assumes "g \<in> allowed i" and "g = (b, Call f # rest)"
  shows "(True, Call f # rest) \<in> allowed i" and "(False, rest) \<in> allowed i"
  using assms by (auto simp: allowed_def split: if_splits)

lemma allowed_send:
  assumes "g \<in> allowed i" and "g = (b, Send c # rest)"
  shows "(False, rest) \<in> allowed i"
  using assms by (auto simp: allowed_def split: if_splits)

lemma allowed_recv:
  assumes "g \<in> allowed i" and "g = (b, Recv c # rest)"
  shows "(False, rest) \<in> allowed i"
  using assms by (auto simp: allowed_def split: if_splits)

lemma head_send:
  assumes "g \<in> allowed i" and "g = (b, Send c # rest)"
  shows "\<not> b \<and> rest = [] \<and> ((i = 0 \<and> c = testVideoDone) \<or> (i = 1 \<and> c = snapshotsDone))"
  using assms by (auto simp: allowed_def split: if_splits)

lemma head_recv:
  assumes "g \<in> allowed i" and "g = (b, Recv c # rest)"
  shows "\<not> b \<and> ((i = 1 \<and> c = testVideoDone \<and> rest = [Call Snapshots, Send snapshotsDone])
              \<or> (i = 2 \<and> c = snapshotsDone \<and> rest = [Call Metadata]))"
  using assms by (auto simp: allowed_def split: if_splits)

lemma head_other:
  assumes "g \<in> allowed i" and "g = (b, x # rest)" and "x = WgDone \<or> x = WgWait \<or> x = FinalSleep \<or> x = Exit"
  shows "3 \<le> i \<and> i < 6 \<and> (False, rest) \<in> allowed i"
  using assms by (auto simp: allowed_def split: if_splits)

lemma takeWhile_all: "b \<notin> set h \<Longrightarrow> takeWhile (\<lambda>e. e \<noteq> b) (h @ [b]) = h"
  by (induction h) auto

lemma occurrences_snoc [simp]: "occurrences a (h @ [e]) = occurrences a h + (if e = a then 1 else 0)"
  by (simp add: occurrences_def)

lemma occurrences_pos: "0 < occurrences a h \<Longrightarrow> a \<in> set h"
  by (induction h) (auto simp: occurrences_def split: if_splits)

lemma shape_update:
  assumes "shape s" and "i < length (goroutines s)" and "g' \<in> allowed i"
    and "goroutines s' = (goroutines s)[i := g']"
  shows "shape s'"
  using assms by (simp add: shape_def nth_list_update)

lemma shape_nth: "shape s \<Longrightarrow> i < length (goroutines s) \<Longrightarrow> goroutines s ! i \<in> allowed i"
  by (simp add: shape_def)

lemma shape_step: "step s s' \<Longrightarrow> shape s \<Longrightarrow> shape s'"
proof (induction rule: step.induct)
  case (call_start s i f rest)
  have "goroutines s ! i \<in> allowed i" using call_start(4) call_start(2) by (rule shape_nth)
  then have a: "(True, Call f # rest) \<in> allowed i" using call_start(3) by (rule allowed_call(1))
  show ?case using call_start(4) call_start(2) a by (rule shape_update) simp
next
  case (call_return s i f rest)
  have "goroutines s ! i \<in> allowed i" using call_return(4) call_return(2) by (rule shape_nth)
  then have a: "(False, rest) \<in> allowed i" using call_return(3) by (rule allowed_call(2))
  show ?case using call_return(4) call_return(2) a by (rule shape_update) simp
next
  case (handoff s i j c ri rj)
  have gi: "goroutines s ! i \<in> allowed i" using handoff(7) handoff(2) by (rule shape_nth)
  have gj: "goroutines s ! j \<in> allowed j" using handoff(7) handoff(3) by (rule shape_nth)
  have ai: "(False, ri) \<in> allowed i" using gi handoff(5) by (rule allowed_send)
  have aj: "(False, rj) \<in> allowed j" using gj handoff(6) by (rule allowed_recv)
  let ?s1 = "s\<lparr>goroutines := (goroutines s)[i := (False, ri)]\<rparr>"
  have "shape ?s1" using handoff(7) handoff(2) ai by (rule shape_update) simp
  moreover have "j < length (goroutines ?s1)" using handoff(3) by simp
  ultimately show ?case using aj by (rule shape_update) simp
next
  case (wg_done s i rest)
  have "goroutines s ! i \<in> allowed i" using wg_done(4) wg_done(2) by (rule shape_nth)
  from head_other[OF this wg_done(3)] have a: "(False, rest) \<in> allowed i" by simp
  show ?case using wg_done(4) wg_done(2) a by (rule shape_update) simp
next
  case (wg_wait s i rest)
  have "goroutines s ! i \<in> allowed i" using wg_wait(5) wg_wait(2) by (rule shape_nth)
  from head_other[OF this wg_wait(3)] have a: "(False, rest) \<in> allowed i" by simp
  show ?case using wg_wait(5) wg_wait(2) a by (rule shape_update) simp
next
  case (final_sleep s i rest)
  have "goroutines s ! i \<in> allowed i" using final_sleep(4) final_sleep(2) by (rule shape_nth)
  from head_other[OF this final_sleep(3)] have a: "(False, rest) \<in> allowed i" by simp
  show ?case using final_sleep(4) final_sleep(2) a by (rule shape_update) simp
next
  case (main_returns s i rest)
  have "goroutines s ! i \<in> allowed i" using main_returns(4) main_returns(2) by (rule shape_nth)
  from head_other[OF this main_returns(3)] have a: "(False, rest) \<in> allowed i" by simp
  show ?case using main_returns(4) main_returns(2) a by (rule shape_update) simp
qed

lemma precedes_snoc_neq [simp]: "e \<noteq> b \<Longrightarrow> precedes a b (h @ [e]) = precedes a b h"
  by (cases "b \<in> set h") (auto simp: precedes_def takeWhile_append1)

lemma precedes_snoc_eq [simp]:
  "precedes a b (h @ [b]) = (if b \<in> set h then precedes a b h else a \<in> set h)"
  by (cases "b \<in> set h") (auto simp: precedes_def takeWhile_append1 takeWhile_all)

lemma occurrences_mem: "occurrences a h = 1 \<Longrightarrow> a \<in> set h"
  by (rule occurrences_pos) simp

text \<open>A step of one of the last three goroutines leaves the first three and the history alone.\<close>

lemma stage_inv_frame:
  assumes "stage_inv s" and "3 \<le> i"
    and "goroutines s' = (goroutines s)[i := g']" and "history s' = history s"
  shows "stage_inv s'"
  using assms by (simp add: stage_inv_def Let_def)

lemma stage_inv_call_start:
  assumes "shape s" and "stage_inv s" and "i < length (goroutines s)"
    and "goroutines s ! i = (False, Call f # rest)"
  shows "stage_inv (s\<lparr>goroutines := (goroutines s)[i := (True, Call f # rest)],
                     history := history s @ [Started f]\<rparr>)"
proof -
  have len: "length (goroutines s) = 6" using assms(1) by (simp add: shape_def)
  have "goroutines s ! i \<in> allowed i" using assms(1,3) by (rule shape_nth)
  from head_call[OF this assms(4)] show ?thesis
  proof (elim disjE conjE)
    assume "i = 0" "f = TestVideo" "rest = [Send testVideoDone]"
    then show ?thesis using assms(2,4) len by (auto simp: stage_inv_def Let_def)
  next
    assume c: "i = 1" "f = Snapshots" "rest = [Send snapshotsDone]"
    then have "goroutines s ! 0 = (False, [])" using assms(2,4) by (simp add: stage_inv_def Let_def)
    then have "Finished TestVideo \<in> set (history s)" "Handoff testVideoDone \<in> set (history s)"
      using assms(2) by (simp_all add: stage_inv_def Let_def occurrences_mem)
    then show ?thesis using c assms(2,4) len by (auto simp: stage_inv_def Let_def)
  next
    assume c: "i = 2" "f = Metadata" "rest = []"
    then have "goroutines s ! 1 = (False, [])" using assms(2,4) by (simp add: stage_inv_def Let_def)
    then have "Finished Snapshots \<in> set (history s)" "Handoff snapshotsDone \<in> set (history s)"
      using assms(2) by (simp_all add: stage_inv_def Let_def occurrences_mem)
    then show ?thesis using c assms(2,4) len by (auto simp: stage_inv_def Let_def)
  next
    assume "i = 3" "f = UploadSnapshots" "rest = [WgDone]"
    then show ?thesis using assms(2,4) len by (auto simp: stage_inv_def Let_def)
  next
    assume "i = 4" "f = UploadMetadata" "rest = [WgDone]"
    then show ?thesis using assms(2,4) len by (auto simp: stage_inv_def Let_def)
  qed
qed

lemma stage_inv_call_return:
  assumes "shape s" and "stage_inv s" and "i < length (goroutines s)"
    and "goroutines s ! i = (True, Call f # rest)"
  shows "stage_inv (s\<lparr>goroutines := (goroutines s)[i := (False, rest)],
                     history := history s @ [Finished f]\<rparr>)"
proof -
  have len: "length (goroutines s) = 6" using assms(1) by (simp add: shape_def)
  have "goroutines s ! i \<in> allowed i" using assms(1,3) by (rule shape_nth)
  from head_call[OF this assms(4)] show ?thesis
  proof (elim disjE conjE)
    assume "i = 0" "f = TestVideo" "rest = [Send testVideoDone]"
    then show ?thesis using assms(2,4) len by (auto simp: stage_inv_def Let_def)
  next
    assume "i = 1" "f = Snapshots" "rest = [Send snapshotsDone]"
    then show ?thesis using assms(2,4) len by (auto simp: stage_inv_def Let_def)
  next
    assume "i = 2" "f = Metadata" "rest = []"
    then show ?thesis using assms(2,4) len by (auto simp: stage_inv_def Let_def)
  next
    assume "i = 3" "f = UploadSnapshots" "rest = [WgDone]"
    then show ?thesis using assms(2,4) len by (auto simp: stage_inv_def Let_def)
  next
    assume "i = 4" "f = UploadMetadata" "rest = [WgDone]"
    then show ?thesis using assms(2,4) len by (auto simp: stage_inv_def Let_def)
  qed
qed

lemma stage_inv_handoff:
  assumes "shape s" and "stage_inv s" and "i < length (goroutines s)" and "j < length (goroutines s)"
    and "goroutines s ! i = (False, Send c # ri)" and "goroutines s ! j = (False, Recv c # rj)"
  shows "stage_inv (s\<lparr>goroutines := (goroutines s)[i := (False, ri), j := (False, rj)],
                     history := history s @ [Handoff c]\<rparr>)"
proof -
  have len: "length (goroutines s) = 6" using assms(1) by (simp add: shape_def)
  have gi: "goroutines s ! i \<in> allowed i" using assms(1,3) by (rule shape_nth)
  have gj: "goroutines s ! j \<in> allowed j" using assms(1,4) by (rule shape_nth)
  from head_send[OF gi assms(5)] head_recv[OF gj assms(6)]
  consider (video) "i = 0" "j = 1" "c = testVideoDone" "ri = []" "rj = [Call Snapshots, Send snapshotsDone]"
    | (snaps) "i = 1" "j = 2" "c = snapshotsDone" "ri = []" "rj = [Call Metadata]"
    by auto
  then show ?thesis
  proof cases
    case video
    then show ?thesis using assms(2,5,6) len by (auto simp: stage_inv_def Let_def)
  next
    case snaps
    then show ?thesis using assms(2,5,6) len by (auto simp: stage_inv_def Let_def)
  qed
qed

lemma stage_inv_step: "step s s' \<Longrightarrow> shape s \<Longrightarrow> stage_inv s \<Longrightarrow> stage_inv s'"
proof (induction rule: step.induct)
  case (call_start s i f rest)
  then show ?case by (intro stage_inv_call_start)
next
  case (call_return s i f rest)
  then show ?case by (intro stage_inv_call_return)
next
  case (handoff s i j c ri rj)
  then show ?case by (intro stage_inv_handoff)
next
  case (wg_done s i rest)
  have "goroutines s ! i \<in> allowed i" using wg_done(4) wg_done(2) by (rule shape_nth)
  from head_other[OF this wg_done(3)] have "3 \<le> i" by simp
  with wg_done(5) show ?case by (rule stage_inv_frame) simp_all
next
  case (wg_wait s i rest)
  have "goroutines s ! i \<in> allowed i" using wg_wait(5) wg_wait(2) by (rule shape_nth)
  from head_other[OF this wg_wait(3)] have "3 \<le> i" by simp
  with wg_wait(6) show ?case by (rule stage_inv_frame) simp_all
next
  case (final_sleep s i rest)
  have "goroutines s ! i \<in> allowed i" using final_sleep(4) final_sleep(2) by (rule shape_nth)
  from head_other[OF this final_sleep(3)] have "3 \<le> i" by simp
  with final_sleep(5) show ?case by (rule stage_inv_frame) simp_all
next
  case (main_returns s i rest)
  have "goroutines s ! i \<in> allowed i" using main_returns(4) main_returns(2) by (rule shape_nth)
  from head_other[OF this main_returns(3)] have "3 \<le> i" by simp
  with main_returns(5) show ?case by (rule stage_inv_frame) simp_all
qed

lemma init_shape: "shape main_init"
  by (simp add: shape_def main_init_def allowed_def less_Suc_eq eval_nat_numeral)

lemma init_stage_inv: "stage_inv main_init"
  by (simp add: stage_inv_def main_init_def precedes_def occurrences_def)

lemma reachable_inv: "reachable s \<Longrightarrow> shape s \<and> stage_inv s"
proof (induction rule: reachable.induct)
  case reachable_init
  show ?case using init_shape init_stage_inv by (rule conjI)
next
  case (reachable_step s s')
  then show ?case using shape_step[of s s'] stage_inv_step[of s s'] by blast
qed

text \<open>
  C7. In every state a run of the coordinator can reach, and so at every moment of every
  run, however the goroutines are scheduled and whenever \<^verbatim>\<open>main\<close> returns: if
  \<^verbatim>\<open>generateSnapshots\<close> has started, then \<^verbatim>\<open>generateTestVideo\<close> had finished and the
  value on \<^verbatim>\<open>testVideoDone\<close> had been handed over before that start; if
  \<^verbatim>\<open>generateMetadata\<close> has started, then \<^verbatim>\<open>generateSnapshots\<close> had finished and the
  value on \<^verbatim>\<open>snapshotsDone\<close> had been handed over before that start. Each channel hands
  over at most once.
\<close>

theorem stages_ordered:
  assumes "reachable s"
  shows "precedes (Finished TestVideo) (Started Snapshots) (history s)
       \<and> precedes (Handoff testVideoDone) (Started Snapshots) (history s)
       \<and> precedes (Finished Snapshots) (Started Metadata) (history s)
       \<and> precedes (Handoff snapshotsDone) (Started Metadata) (history s)
       \<and> occurrences (Handoff testVideoDone) (history s) \<le> 1
       \<and> occurrences (Handoff snapshotsDone) (history s) \<le> 1"
proof -
  from assms have "stage_inv s" by (simp add: reachable_inv)
  then show ?thesis by (simp add: stage_inv_def Let_def)
qed

text \<open>A run up to the start of \<^verbatim>\<open>generateMetadata\<close>, step by step.\<close>

lemma sample_run_reachable:
  "reachable (run_state
      [(False, []), (False, []), (True, [Call Metadata]),
       (False, [Call UploadSnapshots, WgDone]), (False, [Call UploadMetadata, WgDone]),
       (False, [WgWait, FinalSleep, Exit])]
      [Started TestVideo, Finished TestVideo, Handoff testVideoDone,
       Started Snapshots, Finished Snapshots, Handoff snapshotsDone, Started Metadata])"
proof -
  let ?u = "[(False, [Call UploadSnapshots, WgDone]), (False, [Call UploadMetadata, WgDone]),
             (False, [WgWait, FinalSleep, Exit])]"
  let ?g1 = "(False, [Recv testVideoDone, Call Snapshots, Send snapshotsDone])"
  let ?g2 = "(False, [Recv snapshotsDone, Call Metadata])"
  let ?s0 = "run_state ((False, [Call TestVideo, Send testVideoDone]) # ?g1 # ?g2 # ?u) []"
  let ?s1 = "run_state ((True, [Call TestVideo, Send testVideoDone]) # ?g1 # ?g2 # ?u)
               [Started TestVideo]"
  let ?s2 = "run_state ((False, [Send testVideoDone]) # ?g1 # ?g2 # ?u)
               [Started TestVideo, Finished TestVideo]"
  let ?s3 = "run_state ((False, []) # (False, [Call Snapshots, Send snapshotsDone]) # ?g2 # ?u)
               [Started TestVideo, Finished TestVideo, Handoff testVideoDone]"
  let ?s4 = "run_state ((False, []) # (True, [Call Snapshots, Send snapshotsDone]) # ?g2 # ?u)
               [Started TestVideo, Finished TestVideo, Handoff testVideoDone, Started Snapshots]"
  let ?s5 = "run_state ((False, []) # (False, [Send snapshotsDone]) # ?g2 # ?u)
               [Started TestVideo, Finished TestVideo, Handoff testVideoDone, Started Snapshots,
                Finished Snapshots]"
  let ?s6 = "run_state ((False, []) # (False, []) # (False, [Call Metadata]) # ?u)
               [Started TestVideo, Finished TestVideo, Handoff testVideoDone, Started Snapshots,
                Finished Snapshots, Handoff snapshotsDone]"
  let ?s7 = "run_state ((False, []) # (False, []) # (True, [Call Metadata]) # ?u)
               [Started TestVideo, Finished TestVideo, Handoff testVideoDone, Started Snapshots,
                Finished Snapshots, Handoff snapshotsDone, Started Metadata]"
  have r0: "reachable ?s0" using reachable_init by (simp add: main_init_def run_state_def)
  have "step ?s0 ?s1"
    using call_start[of ?s0 0 TestVideo "[Send testVideoDone]"] by (simp add: run_state_def)
  with r0 have r1: "reachable ?s1" by (rule reachable_step)
  have "step ?s1 ?s2"
    using call_return[of ?s1 0 TestVideo "[Send testVideoDone]"] by (simp add: run_state_def)
  with r1 have r2: "reachable ?s2" by (rule reachable_step)
  have "step ?s2 ?s3"
    using handoff[of ?s2 0 1 testVideoDone "[]" "[Call Snapshots, Send snapshotsDone]"]
    by (simp add: run_state_def)
  with r2 have r3: "reachable ?s3" by (rule reachable_step)
  have "step ?s3 ?s4"
    using call_start[of ?s3 1 Snapshots "[Send snapshotsDone]"] by (simp add: run_state_def)
  with r3 have r4: "reachable ?s4" by (rule reachable_step)
  have "step ?s4 ?s5"
    using call_return[of ?s4 1 Snapshots "[Send snapshotsDone]"] by (simp add: run_state_def)
  with r4 have r5: "reachable ?s5" by (rule reachable_step)
  have "step ?s5 ?s6"
    using handoff[of ?s5 1 2 snapshotsDone "[]" "[Call Metadata]"] by (simp add: run_state_def)
  with r5 have r6: "reachable ?s6" by (rule reachable_step)
  have "step ?s6 ?s7"
    using call_start[of ?s6 2 Metadata "[]"] by (simp add: run_state_def)
  with r6 have "reachable ?s7" by (rule reachable_step)
  then show ?thesis by simp
qed

theorem stages_ordered_witness:
  "precedes (Finished TestVideo) (Started Snapshots)
     [Started TestVideo, Finished TestVideo, Handoff testVideoDone,
      Started Snapshots, Finished Snapshots, Handoff snapshotsDone, Started Metadata]
   \<and> precedes (Handoff testVideoDone) (Started Snapshots)
     [Started TestVideo, Finished TestVideo, Handoff testVideoDone,
      Started Snapshots, Finished Snapshots, Handoff snapshotsDone, Started Metadata]
   \<and> precedes (Finished Snapshots) (Started Metadata)
     [Started TestVideo, Finished TestVideo, Handoff testVideoDone,
      Started Snapshots, Finished Snapshots, Handoff snapshotsDone, Started Metadata]
   \<and> precedes (Handoff snapshotsDone) (Started Metadata)
     [Started TestVideo, Finished TestVideo, Handoff testVideoDone,
      Started Snapshots, Finished Snapshots, Handoff snapshotsDone, Started Metadata]
   \<and> occurrences (Handoff testVideoDone)
     [Started TestVideo, Finished TestVideo, Handoff testVideoDone,
      Started Snapshots, Finished Snapshots, Handoff snapshotsDone, Started Metadata] \<le> 1
   \<and> occurrences (Handoff snapshotsDone)
     [Started TestVideo, Finished TestVideo, Handoff testVideoDone,
      Started Snapshots, Finished Snapshots, Handoff snapshotsDone, Started Metadata] \<le> 1"
  using stages_ordered[OF sample_run_reachable] by (simp only: run_state_def sched.simps)

end
